theory Spec2Isabelle
  imports Complex_Main
begin

section \<open>JavaScript values used by script.js\<close>

text \<open>
  DOM elements are identified by natural numbers.  A JavaScript number is \<open>NaN\<close>,
  one of the two infinities, or a finite value, which is a rational here.  An
  arithmetic operation rounds its exact result to the number format: the rounding to
  the nearest number of the format is the parameter \<open>rnd\<close> of the operations (the
  theorems below say what they need of it), and a rounded result beyond
  \<open>Number.MAX_VALUE\<close> becomes an infinity.  The negative zero is not distinguished
  from zero.
\<close>

type_synonym element = nat

datatype jsnum = NaN | NegInf | Num rat | PosInf

definition MAX_VALUE :: rat where
  "MAX_VALUE = of_int ((2 ^ 53 - 1) * 2 ^ 971)"

definition number :: "(rat \<Rightarrow> rat) \<Rightarrow> rat \<Rightarrow> jsnum" where
  "number rnd x =
     (let y = rnd x in
      if MAX_VALUE < y then PosInf else if y < - MAX_VALUE then NegInf else Num y)"

fun js_add :: "(rat \<Rightarrow> rat) \<Rightarrow> jsnum \<Rightarrow> jsnum \<Rightarrow> jsnum" where
  "js_add rnd (Num x) (Num y) = number rnd (x + y)"
| "js_add rnd NaN b = NaN"
| "js_add rnd a NaN = NaN"
| "js_add rnd PosInf NegInf = NaN"
| "js_add rnd NegInf PosInf = NaN"
| "js_add rnd PosInf b = PosInf"
| "js_add rnd a PosInf = PosInf"
| "js_add rnd NegInf b = NegInf"
| "js_add rnd a NegInf = NegInf"

text \<open>
  Division.  A zero divisor gives an infinity with the sign of the dividend, and
  \<open>NaN\<close> for \<open>0 / 0\<close>; an infinite divisor gives \<open>NaN\<close> for an infinite dividend and
  zero otherwise.
\<close>

fun js_div :: "(rat \<Rightarrow> rat) \<Rightarrow> jsnum \<Rightarrow> jsnum \<Rightarrow> jsnum" where
  "js_div rnd (Num x) (Num y) =
     (if y = 0 then (if 0 < x then PosInf else if x < 0 then NegInf else NaN)
      else number rnd (x / y))"
| "js_div rnd NaN b = NaN"
| "js_div rnd a NaN = NaN"
| "js_div rnd (Num x) b = Num 0"
| "js_div rnd PosInf (Num y) = (if 0 \<le> y then PosInf else NegInf)"
| "js_div rnd NegInf (Num y) = (if 0 \<le> y then NegInf else PosInf)"
| "js_div rnd a b = NaN"

text \<open>The comparison \<open>a < b\<close>: false as soon as one side is \<open>NaN\<close>.\<close>

fun js_lt :: "jsnum \<Rightarrow> jsnum \<Rightarrow> bool" where
  "js_lt (Num x) (Num y) = (x < y)"
| "js_lt NaN b = False"
| "js_lt a NaN = False"
| "js_lt a NegInf = False"
| "js_lt PosInf b = False"
| "js_lt NegInf b = True"
| "js_lt a PosInf = True"

fun Math_floor :: "jsnum \<Rightarrow> jsnum" where
  "Math_floor (Num x) = Num (of_int \<lfloor>x\<rfloor>)"
| "Math_floor a = a"

subsection \<open>parseInt\<close>

text \<open>
  \<open>parseInt(string)\<close> without a radix, following ECMAScript: leading white space is
  skipped, one sign is read, a prefix \<open>0x\<close> or \<open>0X\<close> selects radix 16 (otherwise 10),
  the longest run of digits of that radix is read, and an empty run gives \<open>NaN\<close>;
  otherwise the result is the number for the integer that was read, an infinity when
  the integer is beyond the range of the format.
  Strings are sequences of 8-bit code units, so the white space characters are
  TAB, LF, VT, FF, CR, SP and NBSP.
\<close>

definition isWhiteSpace :: "char \<Rightarrow> bool" where
  "isWhiteSpace c = ((of_char c :: nat) \<in> set [9, 10, 11, 12, 13, 32, 160])"

definition digitValue :: "char \<Rightarrow> nat option" where
  "digitValue c =
     (let n = (of_char c :: nat) in
      if 48 \<le> n \<and> n \<le> 57 then Some (n - 48)
      else if 97 \<le> n \<and> n \<le> 122 then Some (n - 87)
      else if 65 \<le> n \<and> n \<le> 90 then Some (n - 55)
      else None)"

definition radixDigit :: "nat \<Rightarrow> char \<Rightarrow> nat option" where
  "radixDigit R c =
     (case digitValue c of None \<Rightarrow> None | Some d \<Rightarrow> if d < R then Some d else None)"

text \<open>The values of the longest prefix of the string made of digits of radix \<open>R\<close>.\<close>

fun radixDigits :: "nat \<Rightarrow> string \<Rightarrow> nat list" where
  "radixDigits R [] = []"
| "radixDigits R (c # cs) =
     (case radixDigit R c of None \<Rightarrow> [] | Some d \<Rightarrow> d # radixDigits R cs)"

definition mathInt :: "nat \<Rightarrow> nat list \<Rightarrow> nat" where
  "mathInt R ds = foldl (\<lambda>a d. a * R + d) 0 ds"

definition parseInt :: "(rat \<Rightarrow> rat) \<Rightarrow> string \<Rightarrow> jsnum" where
  "parseInt rnd inputString =
     (let S = dropWhile isWhiteSpace inputString;
          sign = (if take 1 S = ''-'' then - 1 else (1 :: int));
          S1 = (if take 1 S = ''+'' \<or> take 1 S = ''-'' then drop 1 S else S);
          hex = (take 2 S1 = ''0x'' \<or> take 2 S1 = ''0X'');
          R = (if hex then 16 else 10);
          S2 = (if hex then drop 2 S1 else S1);
          Z = radixDigits R S2
      in if Z = [] then NaN else number rnd (of_int (sign * int (mathInt R Z))))"

text \<open>
  \<open>getAttribute\<close> returns \<open>null\<close> for a missing attribute (\<open>None\<close> here), and
  \<open>parseInt\<close> first converts its argument to a string: \<open>null\<close> becomes \<open>''null''\<close>.
\<close>

definition ToString :: "string option \<Rightarrow> string" where
  "ToString a = (case a of None \<Rightarrow> ''null'' | Some s \<Rightarrow> s)"

section \<open>The visibility observer\<close>

text \<open>
  An \<open>IntersectionObserverEntry\<close> as far as script.js reads it: the observed element
  and whether it intersects the viewport.
\<close>

record entry =
  target :: element
  isIntersecting :: bool

text \<open>
  An \<open>IntersectionObserver\<close>: the elements it currently observes and the options it
  was created with (\<open>None\<close> for an option that the constructor call does not give).
  The field \<open>activations\<close> is bookkeeping that is not in the source: the callbacks
  below append the element to it each time they run their activation action.
\<close>

record IntersectionObserver =
  observationTargets :: "element list"
  threshold :: "rat option"
  rootMargin :: "string option"
  activations :: "element list"

definition observe ::
  "element \<Rightarrow> 'a IntersectionObserver_scheme \<Rightarrow> 'a IntersectionObserver_scheme" where
  "observe e ob =
     (if e \<in> set (observationTargets ob) then ob
      else ob\<lparr>observationTargets := observationTargets ob @ [e]\<rparr>)"

definition unobserve ::
  "element \<Rightarrow> 'a IntersectionObserver_scheme \<Rightarrow> 'a IntersectionObserver_scheme" where
  "unobserve e ob = ob\<lparr>observationTargets := removeAll e (observationTargets ob)\<rparr>"

definition activated ::
  "element \<Rightarrow> 'a IntersectionObserver_scheme \<Rightarrow> 'a IntersectionObserver_scheme" where
  "activated e ob = ob\<lparr>activations := activations ob @ [e]\<rparr>"

text \<open>\<open>Array.prototype.forEach\<close>: the callback gets the item and its index.\<close>

fun forEach_from :: "nat \<Rightarrow> ('a \<Rightarrow> nat \<Rightarrow> 's \<Rightarrow> 's) \<Rightarrow> 'a list \<Rightarrow> 's \<Rightarrow> 's" where
  "forEach_from i f [] s = s"
| "forEach_from i f (x # xs) s = forEach_from (Suc i) f xs (f x i s)"

definition forEach :: "('a \<Rightarrow> nat \<Rightarrow> 's \<Rightarrow> 's) \<Rightarrow> 'a list \<Rightarrow> 's \<Rightarrow> 's" where
  "forEach f xs s = forEach_from 0 f xs s"

text \<open>
  The browser's side.  It queues records only for elements that the observer observes,
  and it calls the callback with the queued records when there are any; the callback
  sees the whole batch, also the records of an element that it unobserves while it
  works through the batch.  \<open>deliveries\<close> hands over a sequence of batches, one
  callback after the other.
\<close>

definition notify ::
  "(entry list \<Rightarrow> 'a IntersectionObserver_scheme \<Rightarrow> 'a IntersectionObserver_scheme) \<Rightarrow>
   entry list \<Rightarrow> 'a IntersectionObserver_scheme \<Rightarrow> 'a IntersectionObserver_scheme" where
  "notify callback batch ob =
     (let queue = filter (\<lambda>r. target r \<in> set (observationTargets ob)) batch
      in if queue = [] then ob else callback queue ob)"

definition deliveries ::
  "(entry list \<Rightarrow> 'a IntersectionObserver_scheme \<Rightarrow> 'a IntersectionObserver_scheme) \<Rightarrow>
   entry list list \<Rightarrow> 'a IntersectionObserver_scheme \<Rightarrow> 'a IntersectionObserver_scheme" where
  "deliveries callback batches ob = foldl (\<lambda>s batch. notify callback batch s) ob batches"

text \<open>How many records of a batch report the element as intersecting.\<close>

definition reports :: "element \<Rightarrow> entry list \<Rightarrow> nat" where
  "reports e batch = length (filter (\<lambda>r. target r = e \<and> isIntersecting r) batch)"

section \<open>Animated counters (animateCounters)\<close>

text \<open>
  The closure that one round of \<open>counters.forEach\<close> creates for a counter element:
  \<open>target\<close> (here \<open>goal\<close>, as \<open>target\<close> names the field of an entry), \<open>increment\<close>,
  \<open>current\<close>, and the observer made for this counter; \<open>rounding\<close> is the rounding
  of the arithmetic that the closure runs on.  \<open>textContent\<close> is \<open>None\<close>
  while the element still shows the text of the markup, and \<open>Some n\<close> once the number
  \<open>n\<close> has been assigned to it.  \<open>animationFrames\<close> counts the calls of
  \<open>updateCounter\<close> that \<open>requestAnimationFrame\<close> has queued and that have not run
  yet.  \<open>displayed\<close> is bookkeeping: every value assigned to \<open>textContent\<close>, oldest
  first.
\<close>

record counter = IntersectionObserver +
  rounding :: "rat \<Rightarrow> rat"
  goal :: jsnum
  increment :: jsnum
  current :: jsnum
  textContent :: "jsnum option"
  animationFrames :: nat
  displayed :: "jsnum list"

definition updateCounter :: "counter \<Rightarrow> counter" where
  "updateCounter c =
     (let c = c\<lparr>current := js_add (rounding c) (current c) (increment c)\<rparr> in
      if js_lt (current c) (goal c)
      then c\<lparr>textContent := Some (Math_floor (current c)),
             displayed := displayed c @ [Math_floor (current c)],
             animationFrames := animationFrames c + 1\<rparr>
      else c\<lparr>textContent := Some (goal c),
             displayed := displayed c @ [goal c]\<rparr>)"

definition counter_callback :: "entry list \<Rightarrow> counter \<Rightarrow> counter" where
  "counter_callback entries =
     forEach (\<lambda>entry index c.
       if isIntersecting entry
       then unobserve (target entry) (updateCounter (activated (target entry) c))
       else c) entries"

text \<open>
  The body of \<open>counters.forEach\<close> for the counter element \<open>e\<close> whose \<open>data-target\<close>
  attribute is \<open>attr\<close>.
\<close>

definition animateCounter :: "(rat \<Rightarrow> rat) \<Rightarrow> element \<Rightarrow> string option \<Rightarrow> counter" where
  "animateCounter rnd e attr =
     (let target = parseInt rnd (ToString attr);
          duration = Num 2000;
          increment = js_div rnd target (js_div rnd duration (Num 16));
          current = Num 0
      in observe e
          \<lparr>observationTargets = [], threshold = Some (1 / 2), rootMargin = None,
           activations = [], rounding = rnd,
           goal = target, increment = increment, current = current,
           textContent = None, animationFrames = 0, displayed = []\<rparr>)"

text \<open>
  \<open>animateCounters\<close> over the \<open>.stat-number\<close> elements of the page, each given with
  its \<open>data-target\<close> attribute; the result pairs every counter with its closure.
\<close>

definition animateCounters ::
  "(rat \<Rightarrow> rat) \<Rightarrow> (element \<times> string option) list \<Rightarrow> (element \<times> counter) list" where
  "animateCounters rnd counters = map (\<lambda>(e, attr). (e, animateCounter rnd e attr)) counters"

text \<open>
  The animation frames that follow: as long as a call of \<open>updateCounter\<close> is queued,
  the browser runs it in the next frame.  The result is \<open>None\<close> when this never ends.
\<close>

partial_function (option) animation :: "counter \<Rightarrow> counter option" where
  "animation c =
     (if animationFrames c = 0 then Some c
      else animation (updateCounter (c\<lparr>animationFrames := animationFrames c - 1\<rparr>)))"

declare animation.simps [code]

text \<open>
  The page as a whole.  The browser hands every observer the records of a batch that
  are about its own targets.  In one animation frame it runs, for every counter, the
  calls of \<open>updateCounter\<close> that were queued when the frame began; the calls that
  these queue run in the next frame.  The animation of the page goes on as long as
  some counter has a call queued.
\<close>

definition page_notify ::
  "entry list \<Rightarrow> (element \<times> counter) list \<Rightarrow> (element \<times> counter) list" where
  "page_notify batch page = map (\<lambda>(e, c). (e, notify counter_callback batch c)) page"

definition page_deliveries ::
  "entry list list \<Rightarrow> (element \<times> counter) list \<Rightarrow> (element \<times> counter) list" where
  "page_deliveries batches page = foldl (\<lambda>p batch. page_notify batch p) page batches"

definition animationFrame :: "counter \<Rightarrow> counter" where
  "animationFrame c = (updateCounter ^^ animationFrames c) (c\<lparr>animationFrames := 0\<rparr>)"

definition page_frame :: "(element \<times> counter) list \<Rightarrow> (element \<times> counter) list" where
  "page_frame page = map (\<lambda>(e, c). (e, animationFrame c)) page"

partial_function (option) page_animation ::
  "(element \<times> counter) list \<Rightarrow> (element \<times> counter) list option" where
  "page_animation page =
     (if list_all (\<lambda>(e, c). animationFrames c = 0) page then Some page
      else page_animation (page_frame page))"

declare page_animation.simps [code]

section \<open>Scroll reveal (observeElements)\<close>

text \<open>
  The inline style properties that script.js writes, as the strings it assigns, and
  the state of the reveal observer: the inline style of every element and the timers
  started with \<open>setTimeout\<close>, each with its delay in milliseconds and the element that
  its callback reveals.
\<close>

record style =
  opacity :: string
  transform :: string
  transition :: string

record reveal = IntersectionObserver +
  styles :: "element \<Rightarrow> style"
  timeouts :: "(nat \<times> element) list"

definition setTimeout :: "element \<Rightarrow> nat \<Rightarrow> reveal \<Rightarrow> reveal" where
  "setTimeout e delay s = s\<lparr>timeouts := timeouts s @ [(delay, e)]\<rparr>"

text \<open>What the timer's callback does when it fires for the element \<open>e\<close>.\<close>

definition reveal_timeout :: "element \<Rightarrow> reveal \<Rightarrow> reveal" where
  "reveal_timeout e s =
     s\<lparr>styles := (styles s)(e := (styles s e)\<lparr>opacity := ''1'', transform := ''translateY(0)''\<rparr>)\<rparr>"

definition reveal_callback :: "entry list \<Rightarrow> reveal \<Rightarrow> reveal" where
  "reveal_callback entries =
     forEach (\<lambda>entry index s.
       if isIntersecting entry
       then unobserve (target entry)
              (setTimeout (target entry) (index * 100) (activated (target entry) s))
       else s) entries"

text \<open>
  \<open>observeElements\<close> for the elements that the selector matches, on a page whose
  inline styles are \<open>markup\<close>.
\<close>

definition observeElements :: "element list \<Rightarrow> (element \<Rightarrow> style) \<Rightarrow> reveal" where
  "observeElements elements markup =
     forEach (\<lambda>element index s.
       observe element
         (s\<lparr>styles := (styles s)(element := (styles s element)
              \<lparr>opacity := ''0'', transform := ''translateY(30px)'',
               transition := ''opacity 0.6s ease, transform 0.6s ease''\<rparr>)\<rparr>))
       elements
       \<lparr>observationTargets = [], threshold = Some (1 / 10),
        rootMargin = Some ''0px 0px -50px 0px'', activations = [],
        styles = markup, timeouts = []\<rparr>"

section \<open>Lazy loading (lazyLoadElements)\<close>

text \<open>
  The attributes \<open>src\<close> and \<open>data-lazy\<close> of every element (\<open>None\<close>: the element
  does not have the attribute) and the lazy observer.  \<open>element.src = value\<close> is an
  assignment to a property.  On an element whose interface has a \<open>src\<close> property that
  reflects the attribute (an \<open>img\<close>, an \<open>iframe\<close>, ...; \<open>reflectsSrc\<close> says which
  elements these are) it sets the attribute to the value as a string; on any other
  element it only gives the object a property \<open>src\<close> of its own, kept in
  \<open>srcProperty\<close> (\<open>None\<close>: never assigned; the value \<open>null\<close> is \<open>Some None\<close>).
\<close>

record lazy = IntersectionObserver +
  reflectsSrc :: "element \<Rightarrow> bool"
  src :: "element \<Rightarrow> string option"
  srcProperty :: "element \<Rightarrow> string option option"
  dataLazy :: "element \<Rightarrow> string option"

definition assign_src :: "element \<Rightarrow> string option \<Rightarrow> lazy \<Rightarrow> lazy" where
  "assign_src element v s =
     (if reflectsSrc s element then s\<lparr>src := (src s)(element \<mapsto> ToString v)\<rparr>
      else s\<lparr>srcProperty := (srcProperty s)(element \<mapsto> v)\<rparr>)"

definition lazy_callback :: "entry list \<Rightarrow> lazy \<Rightarrow> lazy" where
  "lazy_callback entries =
     forEach (\<lambda>entry index s.
       if isIntersecting entry
       then (let element = target entry;
                 source = dataLazy s element;
                 s = activated element s;
                 s = assign_src element source s;
                 s = s\<lparr>dataLazy := (dataLazy s)(element := None)\<rparr>
             in unobserve element s)
       else s) entries"

text \<open>
  \<open>lazyLoadElements\<close> on a page with the elements \<open>doc\<close> (in document order) and
  the given attributes; \<open>[data-lazy]\<close> selects the elements that have the attribute.
  The observer is created without options.
\<close>

definition lazyLoadElements ::
  "element list \<Rightarrow> (element \<Rightarrow> bool) \<Rightarrow> (element \<Rightarrow> string option) \<Rightarrow>
   (element \<Rightarrow> string option) \<Rightarrow> lazy" where
  "lazyLoadElements doc reflects src_attrs lazy_attrs =
     (let lazyElements = filter (\<lambda>e. lazy_attrs e \<noteq> None) doc
      in forEach (\<lambda>element index s. observe element s) lazyElements
           \<lparr>observationTargets = [], threshold = None, rootMargin = None,
            activations = [], reflectsSrc = reflects, src = src_attrs,
            srcProperty = (\<lambda>e. None), dataLazy = lazy_attrs\<rparr>)"

section \<open>Observer options\<close>

text \<open>
  What the browser makes of the options: a missing threshold is 0, a missing root
  margin is 0 on every side; a root margin is given like a CSS margin, one to four
  lengths separated by spaces (top, right, bottom, left).  Only lengths in whole
  pixels are read here.
\<close>

fun words_from :: "string \<Rightarrow> string \<Rightarrow> string list" where
  "words_from w [] = (if w = [] then [] else [w])"
| "words_from w (c # cs) =
     (if c = CHR '' '' then (if w = [] then words_from [] cs else w # words_from [] cs)
      else words_from (w @ [c]) cs)"

definition pixels :: "string \<Rightarrow> int option" where
  "pixels w =
     (let neg = (take 1 w = ''-'');
          body = (if neg then drop 1 w else w);
          ds = radixDigits 10 body
      in if ds \<noteq> [] \<and> drop (length ds) body = ''px''
         then Some ((if neg then - 1 else 1) * int (mathInt 10 ds)) else None)"

definition bottom_margin :: "string \<Rightarrow> int option" where
  "bottom_margin m =
     (case words_from [] m of
        [a] \<Rightarrow> pixels a
      | [a, b] \<Rightarrow> pixels a
      | [a, b, c] \<Rightarrow> pixels c
      | [a, b, c, d] \<Rightarrow> pixels c
      | _ \<Rightarrow> None)"

definition effective_threshold :: "'a IntersectionObserver_scheme \<Rightarrow> rat" where
  "effective_threshold ob = (case threshold ob of None \<Rightarrow> 0 | Some t \<Rightarrow> t)"

definition effective_bottom_margin :: "'a IntersectionObserver_scheme \<Rightarrow> int option" where
  "effective_bottom_margin ob =
     (case rootMargin ob of None \<Rightarrow> Some 0 | Some m \<Rightarrow> bottom_margin m)"

section \<open>Dark mode (initDarkMode)\<close>

text \<open>
  The part of the page that \<open>initDarkMode\<close> touches: whether the document has an
  element with the id \<open>darkModeToggle\<close>, the classes of the body, the local storage,
  and whether the click listener is attached to the toggle.  \<open>storageLog\<close> is
  bookkeeping: the accesses to the local storage, oldest first.
\<close>

datatype storage_access = GetItem string | SetItem string string

record dark_page =
  darkModeToggle :: bool
  bodyClassList :: "string set"
  localStorage :: "string \<rightharpoonup> string"
  listening :: bool
  storageLog :: "storage_access list"

definition getItem :: "string \<Rightarrow> dark_page \<Rightarrow> string option \<times> dark_page" where
  "getItem k p = (localStorage p k, p\<lparr>storageLog := storageLog p @ [GetItem k]\<rparr>)"

definition setItem :: "string \<Rightarrow> string \<Rightarrow> dark_page \<Rightarrow> dark_page" where
  "setItem k v p =
     p\<lparr>localStorage := (localStorage p)(k \<mapsto> v), storageLog := storageLog p @ [SetItem k v]\<rparr>"

definition classList_toggle :: "string \<Rightarrow> dark_page \<Rightarrow> dark_page" where
  "classList_toggle c p =
     (if c \<in> bodyClassList p then p\<lparr>bodyClassList := bodyClassList p - {c}\<rparr>
      else p\<lparr>bodyClassList := insert c (bodyClassList p)\<rparr>)"

text \<open>\<open>setItem\<close> stores strings: a boolean becomes \<open>''true''\<close> or \<open>''false''\<close>.\<close>

definition String_of_bool :: "bool \<Rightarrow> string" where
  "String_of_bool b = (if b then ''true'' else ''false'')"

definition initDarkMode :: "dark_page \<Rightarrow> dark_page" where
  "initDarkMode p =
     (if darkModeToggle p
      then (let (stored, p) = getItem ''darkMode'' p;
                isDarkMode = (stored = Some ''true'');
                p = (if isDarkMode
                     then p\<lparr>bodyClassList := insert ''dark-mode'' (bodyClassList p)\<rparr>
                     else p)
            in p\<lparr>listening := True\<rparr>)
      else p)"

text \<open>A click on the toggle: the listener runs when it is attached.\<close>

definition toggle_click :: "dark_page \<Rightarrow> dark_page" where
  "toggle_click p =
     (if listening p
      then (let p = classList_toggle ''dark-mode'' p;
                isDark = (''dark-mode'' \<in> bodyClassList p)
            in setItem ''darkMode'' (String_of_bool isDark) p)
      else p)"

section \<open>FAQ accordion\<close>

text \<open>
  The elements of the document in document order, the classes of every element, and
  the parent of every element (\<open>None\<close> for an element without a parent element).
  Reading \<open>classList\<close> of \<open>null\<close> throws a \<open>TypeError\<close>.
\<close>

datatype error = TypeError

record faq_page =
  document :: "element list"
  classList :: "element \<Rightarrow> string set"
  parentElement :: "element \<Rightarrow> element option"

definition querySelectorAll_class :: "string \<Rightarrow> faq_page \<Rightarrow> element list" where
  "querySelectorAll_class c p = filter (\<lambda>e. c \<in> classList p e) (document p)"

definition faq_click :: "element \<Rightarrow> faq_page \<Rightarrow> error + faq_page" where
  "faq_click question p =
     (case parentElement p question of
        None \<Rightarrow> Inl TypeError
      | Some faqItem \<Rightarrow>
          (let isActive = (''active'' \<in> classList p faqItem);
               p = forEach (\<lambda>item index p.
                     p\<lparr>classList := (classList p)(item := classList p item - {''active''})\<rparr>)
                     (querySelectorAll_class ''faq-item'' p) p;
               p = (if \<not> isActive
                    then p\<lparr>classList := (classList p)(faqItem := insert ''active'' (classList p faqItem))\<rparr>
                    else p)
           in Inr p))"

text \<open>The FAQ items that are open.\<close>

definition active_items :: "faq_page \<Rightarrow> element set" where
  "active_items p =
     set (filter (\<lambda>i. ''active'' \<in> classList p i) (querySelectorAll_class ''faq-item'' p))"

section \<open>Properties of the animated counters\<close>

subsection \<open>Numbers\<close>

lemma MAX_VALUE_large: "126 \<le> MAX_VALUE"
  by (simp add: MAX_VALUE_def)

lemma number_Num: "- MAX_VALUE \<le> rnd x \<Longrightarrow> rnd x \<le> MAX_VALUE \<Longrightarrow> number rnd x = Num (rnd x)"
  by (simp add: number_def Let_def)

lemma number_NumD: "number rnd x = Num t \<Longrightarrow> t = rnd x \<and> - MAX_VALUE \<le> t \<and> t \<le> MAX_VALUE"
  by (auto simp: number_def Let_def split: if_splits)

lemma number_above: "- MAX_VALUE \<le> rnd x \<Longrightarrow>
    number rnd x = (if MAX_VALUE < rnd x then PosInf else Num (rnd x))"
  by (simp add: number_def Let_def)

lemma parseInt_NumD: "parseInt rnd s = Num t \<Longrightarrow> - MAX_VALUE \<le> t \<and> t \<le> MAX_VALUE"
  unfolding parseInt_def Let_def
  by (auto split: if_splits dest: number_NumD)

lemma js_lt_NaN [simp]: "js_lt a NaN = False"
  by (cases a) simp_all

lemma js_lt_irrefl [simp]: "js_lt a a = False"
  by (cases a) simp_all

subsection \<open>One call and one frame\<close>

lemma animation_idle: "animationFrames c = 0 \<Longrightarrow> animation c = Some c"
  by (subst animation.simps) simp

lemma animation_frame:
  "animationFrames c = Suc n \<Longrightarrow>
   animation c = animation (updateCounter (c\<lparr>animationFrames := n\<rparr>))"
  by (subst animation.simps) simp

lemma animationFrame_idle: "animationFrames c = 0 \<Longrightarrow> animationFrame c = c"
  by (cases c) (simp add: animationFrame_def)

lemma animationFrame_one:
  "animationFrames c = 1 \<Longrightarrow> animationFrame c = updateCounter (c\<lparr>animationFrames := 0\<rparr>)"
  by (simp add: animationFrame_def)

lemma animationFrame_stays:
  "animationFrames ((animationFrame ^^ j) c) = 0 \<Longrightarrow>
   (animationFrame ^^ (j + n)) c = (animationFrame ^^ j) c"
  by (induction n) (simp_all add: animationFrame_idle)

lemma updateCounter_fields:
  "goal (updateCounter c) = goal c"
  "increment (updateCounter c) = increment c"
  "rounding (updateCounter c) = rounding c"
  "current (updateCounter c) = js_add (rounding c) (current c) (increment c)"
  "observationTargets (updateCounter c) = observationTargets c"
  "activations (updateCounter c) = activations c"
  "threshold (updateCounter c) = threshold c"
  "rootMargin (updateCounter c) = rootMargin c"
  by (simp_all add: updateCounter_def Let_def)

lemma updateCounter_again:
  assumes "js_lt (js_add (rounding c) (current c) (increment c)) (goal c)"
  shows "animationFrames (updateCounter c) = animationFrames c + 1"
    "displayed (updateCounter c) =
       displayed c @ [Math_floor (js_add (rounding c) (current c) (increment c))]"
    "textContent (updateCounter c) =
       Some (Math_floor (js_add (rounding c) (current c) (increment c)))"
  using assms by (simp_all add: updateCounter_def Let_def)

lemma updateCounter_done:
  assumes "\<not> js_lt (js_add (rounding c) (current c) (increment c)) (goal c)"
  shows "animationFrames (updateCounter c) = animationFrames c"
    "displayed (updateCounter c) = displayed c @ [goal c]"
    "textContent (updateCounter c) = Some (goal c)"
  using assms by (simp_all add: updateCounter_def Let_def)

text \<open>
  One chain of frames for a goal \<open>t\<close>, when each rounded addition of the increment
  gains at least \<open>d > 0\<close> below the goal: the chain ends, the last value written is
  the goal, and the values written before it are floors of the growing \<open>current\<close>,
  hence integers in non-decreasing order below the goal.  The chain also ends when an
  addition overflows to \<open>Infinity\<close>, which is not below the goal.  The induction is on
  the number of steps of size \<open>d\<close> that still fit below the goal.
\<close>

lemma animation_counts_up:
  fixes t inc cur d :: rat
  assumes "0 < d" and gain: "\<And>x. 0 \<le> x \<Longrightarrow> x < t \<Longrightarrow> x + d \<le> rnd (x + inc)"
  shows "goal c = Num t \<Longrightarrow> increment c = Num inc \<Longrightarrow> current c = Num cur \<Longrightarrow>
     rounding c = rnd \<Longrightarrow> 0 \<le> cur \<Longrightarrow> cur < t \<Longrightarrow>
     animationFrames c = 1 \<Longrightarrow> nat \<lceil>(t - cur) / d\<rceil> = k \<Longrightarrow>
     \<exists>c' vs j. animation c = Some c' \<and> c' = (animationFrame ^^ j) c \<and>
        animationFrames c' = 0 \<and> goal c' = Num t \<and>
        textContent c' = Some (Num t) \<and> \<not> js_lt (current c') (goal c') \<and>
        activations c' = activations c \<and>
        displayed c' = displayed c @ map (\<lambda>v. Num (of_int v)) vs @ [Num t] \<and>
        sorted vs \<and> (\<forall>v\<in>set vs. \<lfloor>cur\<rfloor> \<le> v \<and> of_int v < t) \<and> length vs \<le> k - 1"
proof (induction k arbitrary: c cur rule: less_induct)
  case (less k)
  let ?c0 = "c\<lparr>animationFrames := 0\<rparr>"
  let ?c1 = "updateCounter ?c0"
  let ?cur = "rnd (cur + inc)"
  let ?a = "js_add (rounding ?c0) (current ?c0) (increment ?c0)"
  have unf: "animation c = animation ?c1"
    using less.prems(7) animation_frame [of c 0] by simp
  have frame: "animationFrame c = ?c1"
    using less.prems(7) by (rule animationFrame_one)
  have up: "cur + d \<le> ?cur" using gain less.prems(5,6) by simp
  have "- MAX_VALUE \<le> ?cur" using up less.prems(5) assms(1) MAX_VALUE_large by linarith
  then have a: "?a = (if MAX_VALUE < ?cur then PosInf else Num ?cur)"
    using less.prems(2-4) by (simp add: number_above)
  have keep: "goal ?c1 = Num t" "increment ?c1 = Num inc" "rounding ?c1 = rnd"
    "current ?c1 = ?a" "activations ?c1 = activations c"
    using less.prems(1-4) by (simp_all add: updateCounter_fields)
  show ?case
  proof (cases "js_lt ?a (goal ?c0)")
    case True
    then have fin: "?a = Num ?cur" and lt: "?cur < t"
      using a less.prems(1) by (simp_all split: if_splits)
    have f1: "animationFrames ?c1 = 1"
      "displayed ?c1 = displayed c @ [Num (of_int \<lfloor>?cur\<rfloor>)]"
      using updateCounter_again [OF True] fin by simp_all
    have new: "current ?c1 = Num ?cur" using keep(4) fin by simp
    have pos: "0 \<le> ?cur" using up less.prems(5) assms(1) by linarith
    have "(t - ?cur) / d \<le> (t - cur - d) / d"
      using up assms(1) by (intro divide_right_mono) simp_all
    moreover have "(t - cur - d) / d = (t - cur) / d - 1"
      using assms(1) by (simp add: field_simps)
    ultimately have "(t - ?cur) / d \<le> (t - cur) / d - 1" by simp
    then have "\<lceil>(t - ?cur) / d\<rceil> \<le> \<lceil>(t - cur) / d\<rceil> - 1"
      by (metis ceiling_mono ceiling_diff_one)
    moreover have "0 < (t - ?cur) / d" using lt assms(1) by simp
    then have "0 < \<lceil>(t - ?cur) / d\<rceil>" by simp
    ultimately have k': "nat \<lceil>(t - ?cur) / d\<rceil> < k" "1 \<le> nat \<lceil>(t - ?cur) / d\<rceil>"
      using less.prems(8) by linarith+
    from less.IH [OF k'(1) keep(1,2) new keep(3) pos lt f1(1) refl]
    obtain c' vs j where r: "animation ?c1 = Some c'" "c' = (animationFrame ^^ j) ?c1"
        "animationFrames c' = 0" "goal c' = Num t"
        "textContent c' = Some (Num t)" "\<not> js_lt (current c') (goal c')"
        "activations c' = activations ?c1"
        "displayed c' = displayed ?c1 @ map (\<lambda>v. Num (of_int v)) vs @ [Num t]"
        "sorted vs" "\<forall>v\<in>set vs. \<lfloor>?cur\<rfloor> \<le> v \<and> of_int v < t"
        "length vs \<le> nat \<lceil>(t - ?cur) / d\<rceil> - 1"
      by blast
    let ?vs = "\<lfloor>?cur\<rfloor> # vs"
    have "cur \<le> ?cur" using up assms(1) by linarith
    then have mono: "\<lfloor>cur\<rfloor> \<le> \<lfloor>?cur\<rfloor>" by (rule floor_mono)
    have below: "of_int \<lfloor>?cur\<rfloor> < t"
      using lt by (meson le_less_trans of_int_floor_le)
    have "c' = (animationFrame ^^ Suc j) c"
      using r(2) frame by (simp add: funpow_swap1)
    moreover have "displayed c' = displayed c @ map (\<lambda>v. Num (of_int v)) ?vs @ [Num t]"
      using r(8) f1(2) by simp
    moreover have "sorted ?vs" using r(9,10) by auto
    moreover have "\<forall>v\<in>set ?vs. \<lfloor>cur\<rfloor> \<le> v \<and> of_int v < t"
      using r(10) mono below by auto
    moreover have "length ?vs \<le> k - 1" using r(11) k' by simp
    moreover have "activations c' = activations c" using r(7) keep(5) by simp
    ultimately show ?thesis using unf r(1,3-6)
      by (intro exI [of _ c'] exI [of _ ?vs] exI [of _ "Suc j"]) simp
  next
    case False
    have f1: "animationFrames ?c1 = 0" "textContent ?c1 = Some (Num t)"
      "displayed ?c1 = displayed c @ [Num t]"
      using updateCounter_done [OF False] less.prems(1) by simp_all
    have stop: "\<not> js_lt (current ?c1) (goal ?c1)"
      using False keep(4) less.prems(1) by (simp add: updateCounter_fields)
    have "animation c = Some ?c1" using unf animation_idle [OF f1(1)] by simp
    moreover have "?c1 = (animationFrame ^^ 1) c" using frame by simp
    moreover have "displayed ?c1 = displayed c @ map (\<lambda>v. Num (of_int v)) [] @ [Num t]"
      using f1(3) by simp
    ultimately show ?thesis using f1(1,2) stop keep(1,5)
      by (intro exI [of _ ?c1] exI [of _ "[]"] exI [of _ 1]) simp
  qed
qed

lemma parseInt_null: "parseInt rnd (ToString None) = NaN"
  by (simp add: parseInt_def ToString_def isWhiteSpace_def radixDigit_def digitValue_def)

lemma animateCounter_fields:
  "goal (animateCounter rnd e attr) = parseInt rnd (ToString attr)"
  "increment (animateCounter rnd e attr) =
     js_div rnd (parseInt rnd (ToString attr)) (number rnd 125)"
  "rounding (animateCounter rnd e attr) = rnd"
  "current (animateCounter rnd e attr) = Num 0"
  "animationFrames (animateCounter rnd e attr) = 0"
  "displayed (animateCounter rnd e attr) = []"
  "textContent (animateCounter rnd e attr) = None"
  "observationTargets (animateCounter rnd e attr) = [e]"
  "activations (animateCounter rnd e attr) = []"
  "threshold (animateCounter rnd e attr) = Some (1 / 2)"
  "rootMargin (animateCounter rnd e attr) = None"
  by (simp_all add: animateCounter_def observe_def Let_def)

text \<open>
  The callback of a counter sees only records of its own element.  It leaves the
  closure as it is when none of them reports the element as intersecting, and it is
  one call of \<open>updateCounter\<close> (followed by \<open>unobserve\<close>) when one of them does.
\<close>

lemma counter_forEach_none:
  "\<forall>r\<in>set q. \<not> isIntersecting r \<Longrightarrow>
   forEach_from i (\<lambda>entry index c.
       if isIntersecting entry
       then unobserve (target entry) (updateCounter (activated (target entry) c))
       else c) q c = c"
  by (induction q arbitrary: i) simp_all

lemma counter_forEach_once:
  "\<forall>r\<in>set q. target r = e \<Longrightarrow> reports e q = 1 \<Longrightarrow>
   forEach_from i (\<lambda>entry index c.
       if isIntersecting entry
       then unobserve (target entry) (updateCounter (activated (target entry) c))
       else c) q c = unobserve e (updateCounter (activated e c))"
proof (induction q arbitrary: i c)
  case Nil
  then show ?case by (simp add: reports_def)
next
  case (Cons x q)
  show ?case
  proof (cases "isIntersecting x")
    case True
    then have "reports e q = 0" using Cons.prems by (simp add: reports_def)
    then have "\<forall>r\<in>set q. \<not> isIntersecting r"
      using Cons.prems(1) by (auto simp: reports_def filter_empty_conv)
    from counter_forEach_none [OF this] True Cons.prems(1) show ?thesis by simp
  next
    case False
    then have "reports e q = 1" using Cons.prems by (simp add: reports_def)
    from Cons.IH [OF _ this] Cons.prems(1) False show ?thesis by simp
  qed
qed

lemma counter_activation_once:
  assumes "reports e b = 1"
  shows "notify counter_callback b (animateCounter rnd e attr) =
     unobserve e (updateCounter (activated e (animateCounter rnd e attr)))"
proof -
  let ?q = "filter (\<lambda>r. target r \<in> set (observationTargets (animateCounter rnd e attr))) b"
  have q: "?q = filter (\<lambda>r. target r = e) b" by (simp add: animateCounter_fields)
  have "reports e (filter (\<lambda>r. target r = e) b) = reports e b"
    by (induction b) (simp_all add: reports_def)
  then have r: "reports e ?q = 1" using assms unfolding q by simp
  have ne: "?q \<noteq> []"
  proof
    assume empty: "?q = []"
    have "reports e [] = 0" by (simp add: reports_def)
    then show False using r unfolding empty by simp
  qed
  have all: "\<forall>r\<in>set ?q. target r = e" unfolding q by simp
  show ?thesis
    using counter_forEach_once [OF all r, of 0 "animateCounter rnd e attr"] ne
    by (simp add: notify_def counter_callback_def forEach_def Let_def)
qed

lemma counter_activation:
  "notify counter_callback [\<lparr>target = e, isIntersecting = True\<rparr>] (animateCounter rnd e attr) =
   unobserve e (updateCounter (activated e (animateCounter rnd e attr)))"
  by (rule counter_activation_once) (simp add: reports_def)

text \<open>The state after the call of \<open>updateCounter\<close> that the observer callback makes.\<close>

lemma first_step_fields:
  assumes "c1 = unobserve e (updateCounter (activated e (animateCounter rnd e attr)))"
  shows "goal c1 = parseInt rnd (ToString attr)"
    "increment c1 = js_div rnd (parseInt rnd (ToString attr)) (number rnd 125)"
    "current c1 = js_add rnd (Num 0) (js_div rnd (parseInt rnd (ToString attr)) (number rnd 125))"
    "rounding c1 = rnd"
    "observationTargets c1 = []" "activations c1 = [e]"
    "js_lt (current c1) (goal c1) \<Longrightarrow> animationFrames c1 = 1 \<and>
        displayed c1 = [Math_floor (current c1)] \<and> textContent c1 = Some (Math_floor (current c1))"
    "\<not> js_lt (current c1) (goal c1) \<Longrightarrow> animationFrames c1 = 0 \<and>
        displayed c1 = [goal c1] \<and> textContent c1 = Some (goal c1)"
proof -
  let ?a = "activated e (animateCounter rnd e attr)"
  have a: "goal ?a = parseInt rnd (ToString attr)"
    "increment ?a = js_div rnd (parseInt rnd (ToString attr)) (number rnd 125)"
    "rounding ?a = rnd"
    "current ?a = Num 0" "animationFrames ?a = 0" "displayed ?a = []"
    "observationTargets ?a = [e]" "activations ?a = [e]"
    by (simp_all add: activated_def animateCounter_fields)
  show "goal c1 = parseInt rnd (ToString attr)"
    "increment c1 = js_div rnd (parseInt rnd (ToString attr)) (number rnd 125)"
    "current c1 = js_add rnd (Num 0) (js_div rnd (parseInt rnd (ToString attr)) (number rnd 125))"
    "rounding c1 = rnd"
    "observationTargets c1 = []" "activations c1 = [e]"
    unfolding assms by (simp_all add: unobserve_def updateCounter_fields a)
  show "js_lt (current c1) (goal c1) \<Longrightarrow> animationFrames c1 = 1 \<and>
        displayed c1 = [Math_floor (current c1)] \<and> textContent c1 = Some (Math_floor (current c1))"
    unfolding assms using updateCounter_again [of ?a]
    by (simp add: unobserve_def updateCounter_fields a)
  show "\<not> js_lt (current c1) (goal c1) \<Longrightarrow> animationFrames c1 = 0 \<and>
        displayed c1 = [goal c1] \<and> textContent c1 = Some (goal c1)"
    unfolding assms using updateCounter_done [of ?a]
    by (simp add: unobserve_def updateCounter_fields a)
qed

subsection \<open>Rounding\<close>

text \<open>
  What follows from a relative rounding error of at most one thousandth (binary64
  arithmetic rounds with a relative error of at most \<open>2\<^sup>-\<^sup>5\<^sup>3\<close>): bounds for a
  rounded value, for the rounded quotient \<open>2000 / 16\<close> and for the increment.
\<close>

lemma rounding_bounds:
  fixes rnd :: "rat \<Rightarrow> rat"
  assumes err: "\<And>x. \<bar>rnd x - x\<bar> \<le> \<bar>x\<bar> / 1000"
  shows "0 \<le> x \<Longrightarrow> x * (999 / 1000) \<le> rnd x"
    and "0 \<le> x \<Longrightarrow> rnd x \<le> x * (1001 / 1000)"
    and "x \<le> 0 \<Longrightarrow> x * (1001 / 1000) \<le> rnd x"
    and "x \<le> 0 \<Longrightarrow> rnd x \<le> x * (999 / 1000)"
    and "124 \<le> rnd 125" and "rnd 125 \<le> 126"
proof -
  have both: "rnd y - y \<le> \<bar>y\<bar> / 1000" "y - rnd y \<le> \<bar>y\<bar> / 1000" for y
    using abs_le_D1 [OF err [of y]] abs_le_D2 [OF err [of y]] by simp_all
  show "0 \<le> x \<Longrightarrow> x * (999 / 1000) \<le> rnd x" using both [of x] by linarith
  show "0 \<le> x \<Longrightarrow> rnd x \<le> x * (1001 / 1000)" using both [of x] by linarith
  show "x \<le> 0 \<Longrightarrow> x * (1001 / 1000) \<le> rnd x" using both [of x] by linarith
  show "x \<le> 0 \<Longrightarrow> rnd x \<le> x * (999 / 1000)" using both [of x] by linarith
  show "124 \<le> rnd 125" using both [of 125] by simp
  show "rnd 125 \<le> 126" using both [of 125] by simp
qed

lemma number_125:
  fixes rnd :: "rat \<Rightarrow> rat"
  assumes err: "\<And>x. \<bar>rnd x - x\<bar> \<le> \<bar>x\<bar> / 1000"
  shows "number rnd 125 = Num (rnd 125)"
proof -
  note d = rounding_bounds(5,6) [where rnd = rnd, OF err]
  show ?thesis using d MAX_VALUE_large by (intro number_Num) linarith+
qed

lemma increment_bounds:
  fixes rnd :: "rat \<Rightarrow> rat"
  assumes err: "\<And>x. \<bar>rnd x - x\<bar> \<le> \<bar>x\<bar> / 1000"
  shows "0 < t \<Longrightarrow> t * (7 / 1000) \<le> rnd (t / rnd 125)"
    and "0 < t \<Longrightarrow> rnd (t / rnd 125) \<le> t * (9 / 1000)"
    and "t \<le> 0 \<Longrightarrow> t * (9 / 1000) \<le> rnd (t / rnd 125)"
    and "t \<le> 0 \<Longrightarrow> rnd (t / rnd 125) \<le> 0"
proof -
  note d = rounding_bounds(5,6) [where rnd = rnd, OF err]
  have dpos: "0 < rnd 125" using d by linarith
  define q where "q = t / rnd 125"
  define r where "r = rnd q"
  have pos: "t * (7 / 1000) \<le> r \<and> r \<le> t * (9 / 1000)" if t: "0 < t"
  proof -
    have "t / 126 \<le> t / rnd 125"
      using t d dpos by (intro frac_le) simp_all
    moreover have "t / rnd 125 \<le> t / 124"
      using t d by (intro frac_le) simp_all
    ultimately have q: "t / 126 \<le> q" "q \<le> t / 124" by (simp_all add: q_def)
    then have "0 \<le> q" using t by linarith
    from rounding_bounds(1,2) [where rnd = rnd and x = q, OF err this]
    have "q * (999 / 1000) \<le> r" "r \<le> q * (1001 / 1000)" by (simp_all add: r_def)
    with q t show ?thesis by linarith
  qed
  have neg: "t * (9 / 1000) \<le> r \<and> r \<le> 0" if t: "t \<le> 0"
  proof -
    have "(- t) / 126 \<le> (- t) / rnd 125"
      using t d dpos by (intro frac_le) simp_all
    moreover have "(- t) / rnd 125 \<le> (- t) / 124"
      using t d by (intro frac_le) simp_all
    ultimately have q: "t / 124 \<le> q" "q \<le> t / 126" by (simp_all add: q_def)
    then have "q \<le> 0" using t by linarith
    from rounding_bounds(3,4) [where rnd = rnd and x = q, OF err this]
    have "q * (1001 / 1000) \<le> r" "r \<le> q * (999 / 1000)" by (simp_all add: r_def)
    with q t show ?thesis by linarith
  qed
  show "0 < t \<Longrightarrow> t * (7 / 1000) \<le> rnd (t / rnd 125)"
    and "0 < t \<Longrightarrow> rnd (t / rnd 125) \<le> t * (9 / 1000)"
    and "t \<le> 0 \<Longrightarrow> t * (9 / 1000) \<le> rnd (t / rnd 125)"
    and "t \<le> 0 \<Longrightarrow> rnd (t / rnd 125) \<le> 0"
    using pos neg by (simp_all add: r_def q_def)
qed

text \<open>
  The first call of \<open>updateCounter\<close> for a finite target \<open>t\<close>: neither the increment
  nor the first sum overflows; for \<open>t \<le> 0\<close> the new \<open>current\<close> is not below the
  target; for \<open>t > 0\<close> it is not negative and every later addition gains at least
  \<open>t / 200\<close>.
\<close>

lemma first_current:
  fixes rnd :: "rat \<Rightarrow> rat"
  assumes err: "\<And>x. \<bar>rnd x - x\<bar> \<le> \<bar>x\<bar> / 1000"
    and "parseInt rnd (ToString attr) = Num t"
    and "c1 = unobserve e (updateCounter (activated e (animateCounter rnd e attr)))"
  shows "goal c1 = Num t" "increment c1 = Num (rnd (t / rnd 125))"
    "current c1 = Num (rnd (rnd (t / rnd 125)))"
    "t \<le> 0 \<Longrightarrow> \<not> js_lt (current c1) (goal c1)"
    "0 < t \<Longrightarrow> 0 \<le> rnd (rnd (t / rnd 125))"
    "0 < t \<Longrightarrow> 0 \<le> x \<Longrightarrow> x < t \<Longrightarrow> x + t / 200 \<le> rnd (x + rnd (t / rnd 125))"
proof -
  note f = first_step_fields [OF assms(3), unfolded assms(2) number_125 [of rnd, OF err]]
  note d = rounding_bounds(5,6) [where rnd = rnd, OF err]
  note m = parseInt_NumD [OF assms(2)]
  have d0: "rnd 125 \<noteq> 0" using d by linarith
  define inc where "inc = rnd (t / rnd 125)"
  have ipos: "t * (7 / 1000) \<le> inc" "inc \<le> t * (9 / 1000)" if "0 < t"
    using increment_bounds(1,2) [where rnd = rnd, OF err that] by (simp_all add: inc_def)
  have ineg: "t * (9 / 1000) \<le> inc" "inc \<le> 0" if "t \<le> 0"
    using increment_bounds(3,4) [where rnd = rnd, OF err that] by (simp_all add: inc_def)
  have rpos: "0 \<le> rnd inc" "rnd inc \<le> t" if t: "0 < t"
  proof -
    have i0: "0 \<le> inc" using ipos(1) [OF t] t by linarith
    from rounding_bounds(1,2) [where rnd = rnd and x = inc, OF err i0] ipos [OF t] t
    show "0 \<le> rnd inc" "rnd inc \<le> t" by linarith+
  qed
  have rneg: "t \<le> rnd inc" "rnd inc \<le> 0" if t: "t \<le> 0"
  proof -
    from rounding_bounds(3,4) [where rnd = rnd and x = inc, OF err ineg(2) [OF t]]
      ineg [OF t] t
    show "t \<le> rnd inc" "rnd inc \<le> 0" by linarith+
  qed
  have ibound: "- MAX_VALUE \<le> inc" "inc \<le> MAX_VALUE"
    using ipos ineg m by (cases "0 < t"; linarith)+
  have rbound: "- MAX_VALUE \<le> rnd inc" "rnd inc \<le> MAX_VALUE"
    using rpos rneg m by (cases "0 < t"; linarith)+
  have ninc: "number rnd (t / rnd 125) = Num inc"
    using ibound unfolding inc_def by (rule number_Num)
  have ncur: "number rnd inc = Num (rnd inc)"
    using rbound by (rule number_Num)
  show g: "goal c1 = Num t" using f(1) .
  show "increment c1 = Num (rnd (t / rnd 125))" using f(2) d0 ninc by (simp add: inc_def)
  show c: "current c1 = Num (rnd (rnd (t / rnd 125)))"
    using f(3) d0 ninc ncur by (simp add: inc_def)
  show "\<not> js_lt (current c1) (goal c1)" if t: "t \<le> 0"
    using g c rneg(1) [OF t] by (simp add: inc_def)
  show "0 \<le> rnd (rnd (t / rnd 125))" if t: "0 < t"
    using rpos(1) [OF t] by (simp add: inc_def)
  show "x + t / 200 \<le> rnd (x + rnd (t / rnd 125))" if t: "0 < t" and x: "0 \<le> x" "x < t"
  proof -
    note i = ipos [OF t]
    define y where "y = x + inc"
    have yeq: "y = x + inc" by (simp add: y_def)
    have "0 \<le> y" using i t x yeq by linarith
    from rounding_bounds(1) [where rnd = rnd and x = y, OF err this]
    have "y * (999 / 1000) \<le> rnd y" .
    with i t x yeq have "x + t / 200 \<le> rnd y" by linarith
    then show ?thesis by (simp add: inc_def y_def)
  qed
qed

text \<open>
  The first call for a target that is not finite: the increment and \<open>current\<close> are
  the target itself (\<open>NaN\<close>, \<open>Infinity\<close> or \<open>-Infinity\<close>), and \<open>current < target\<close>
  is false.
\<close>

lemma first_current_not_finite:
  fixes rnd :: "rat \<Rightarrow> rat"
  assumes err: "\<And>x. \<bar>rnd x - x\<bar> \<le> \<bar>x\<bar> / 1000"
    and "\<And>t. parseInt rnd (ToString attr) \<noteq> Num t"
    and "c1 = unobserve e (updateCounter (activated e (animateCounter rnd e attr)))"
  shows "\<not> js_lt (current c1) (goal c1)"
proof -
  note f = first_step_fields [OF assms(3), unfolded number_125 [of rnd, OF err]]
  note d = rounding_bounds(5) [where rnd = rnd, OF err]
  have d0: "0 \<le> rnd 125" using d by linarith
  show ?thesis
  proof (cases "parseInt rnd (ToString attr)")
    case (Num t)
    then show ?thesis using assms(2) by blast
  next
    case NaN
    then show ?thesis unfolding f(1,3) by simp
  next
    case PosInf
    then show ?thesis using d0 unfolding f(1,3) by simp
  next
    case NegInf
    then show ?thesis using d0 unfolding f(1,3) by simp
  qed
qed

text \<open>
  The animation that one activation of a counter starts, on arithmetic with a
  relative rounding error of at most one thousandth: it ends, after at most 201
  calls of \<open>updateCounter\<close>, with the target in the element.  The frames of the
  animation are those of \<open>animationFrame\<close>.
\<close>

lemma counter_activation_ends:
  fixes rnd :: "rat \<Rightarrow> rat"
  assumes err: "\<And>x. \<bar>rnd x - x\<bar> \<le> \<bar>x\<bar> / 1000"
    and c1: "c1 = unobserve e (updateCounter (activated e (animateCounter rnd e attr)))"
  shows "\<exists>c' j. animation c1 = Some c' \<and> c' = (animationFrame ^^ j) c1 \<and>
     animationFrames c' = 0 \<and> \<not> js_lt (current c') (goal c') \<and>
     length (displayed c') \<le> 201 \<and> goal c' = parseInt rnd (ToString attr) \<and>
     textContent c' = Some (goal c') \<and> activations c' = [e]"
proof -
  note f = first_step_fields [OF c1]
  show ?thesis
  proof (cases "js_lt (current c1) (goal c1)")
    case False
    from f(8) [OF False] have "animation c1 = Some c1" "animationFrames c1 = 0"
      "length (displayed c1) \<le> 201" "textContent c1 = Some (goal c1)"
      by (simp_all add: animation_idle)
    moreover have "c1 = (animationFrame ^^ 0) c1" by simp
    ultimately show ?thesis using False f(1,6)
      by (intro exI [of _ c1] exI [of _ 0]) simp
  next
    case True
    then obtain t where parse: "parseInt rnd (ToString attr) = Num t"
      using first_current_not_finite [OF err _ c1] by blast
    define cur where "cur = rnd (rnd (t / rnd 125))"
    note fc = first_current [of rnd attr t c1 e, OF err parse c1, folded cur_def]
    have lt: "cur < t" using True fc(1,3) by simp
    have tpos: "0 < t" using fc(4) True by (cases "0 < t") simp_all
    have start: "animationFrames c1 = 1" "displayed c1 = [Num (of_int \<lfloor>cur\<rfloor>)]"
      using f(7) [OF True] fc(3) by simp_all
    have dpos: "0 < t / 200" using tpos by simp
    have "(t - cur) / (t / 200) \<le> 200"
      using fc(5) [OF tpos] tpos by (simp add: field_simps)
    then have "\<lceil>(t - cur) / (t / 200)\<rceil> \<le> 200" by (simp add: ceiling_le_iff)
    then have k: "nat \<lceil>(t - cur) / (t / 200)\<rceil> - 1 \<le> 199" by linarith
    from animation_counts_up [of "t / 200" t rnd "rnd (t / rnd 125)" c1 cur, OF dpos
        fc(6) [OF tpos] fc(1,2,3) f(4) fc(5) [OF tpos] lt start(1) refl]
    obtain c' vs j where r: "animation c1 = Some c'" "c' = (animationFrame ^^ j) c1"
        "animationFrames c' = 0" "goal c' = Num t" "textContent c' = Some (Num t)"
        "\<not> js_lt (current c') (goal c')" "activations c' = activations c1"
        "displayed c' = displayed c1 @ map (\<lambda>v. Num (of_int v)) vs @ [Num t]"
        "length vs \<le> nat \<lceil>(t - cur) / (t / 200)\<rceil> - 1"
      by blast
    have "length (displayed c') \<le> 201" using r(8,9) start(2) k by simp
    then show ?thesis using r(1-7) f(6) parse
      by (intro exI [of _ c'] exI [of _ j]) simp
  qed
qed

text \<open>
  A counter whose \<open>data-target\<close> attribute parses to the integer \<open>V\<close>, when the batch
  that activates it holds one record that reports it as intersecting: the animation
  ends; the values it has written to the element are integers in non-decreasing order,
  all strictly below \<open>V\<close>, followed by \<open>V\<close> itself, which is what the element shows
  at the end, whatever the rounding has made of \<open>current\<close>.
\<close>

lemma counter_single_activation_exact:
  fixes rnd :: "rat \<Rightarrow> rat"
  assumes err: "\<And>x. \<bar>rnd x - x\<bar> \<le> \<bar>x\<bar> / 1000"
    and parse: "parseInt rnd (ToString attr) = Num (of_int V)"
    and once: "reports e b = 1"
  shows "\<exists>c' vs.
     animation (notify counter_callback b (animateCounter rnd e attr)) = Some c' \<and>
     textContent c' = Some (Num (of_int V)) \<and>
     displayed c' = map (\<lambda>v. Num (of_int v)) vs @ [Num (of_int V)] \<and>
     sorted vs \<and> (\<forall>v\<in>set vs. v < V)"
proof -
  define c1 where "c1 = unobserve e (updateCounter (activated e (animateCounter rnd e attr)))"
  define t :: rat where "t = of_int V"
  define cur where "cur = rnd (rnd (t / rnd 125))"
  note f = first_step_fields [OF c1_def]
  note fc = first_current [of rnd attr t c1 e, OF err parse [folded t_def] c1_def,
      folded cur_def]
  show ?thesis
  proof (cases "js_lt (current c1) (goal c1)")
    case False
    from f(8) [OF False] have "animation c1 = Some c1" "textContent c1 = Some (Num (of_int V))"
      "displayed c1 = map (\<lambda>v. Num (of_int v)) [] @ [Num (of_int V)]"
      using fc(1) by (simp_all add: animation_idle t_def)
    then show ?thesis
      unfolding counter_activation_once [OF once] c1_def [symmetric]
      by (intro exI [of _ c1] exI [of _ "[]"]) simp
  next
    case True
    then have lt: "cur < t" using fc(1,3) by simp
    have tpos: "0 < t" using fc(4) True by (cases "0 < t") simp_all
    have start: "animationFrames c1 = 1" "displayed c1 = [Num (of_int \<lfloor>cur\<rfloor>)]"
      using f(7) [OF True] fc(3) by simp_all
    have dpos: "0 < t / 200" using tpos by simp
    from animation_counts_up [of "t / 200" t rnd "rnd (t / rnd 125)" c1 cur, OF dpos
        fc(6) [OF tpos] fc(1,2,3) f(4) fc(5) [OF tpos] lt start(1) refl]
    obtain c' vs where r: "animation c1 = Some c'" "textContent c' = Some (Num t)"
        "displayed c' = displayed c1 @ map (\<lambda>v. Num (of_int v)) vs @ [Num t]"
        "sorted vs" "\<forall>v\<in>set vs. \<lfloor>cur\<rfloor> \<le> v \<and> rat_of_int v < t"
      by blast
    let ?vs = "\<lfloor>cur\<rfloor> # vs"
    have "rat_of_int \<lfloor>cur\<rfloor> < t" using lt by (meson le_less_trans of_int_floor_le)
    then have "\<forall>v\<in>set ?vs. v < V" using r(5) by (auto simp: t_def)
    moreover have "sorted ?vs" using r(4,5) by auto
    moreover have "displayed c' = map (\<lambda>v. Num (of_int v)) ?vs @ [Num (of_int V)]"
      using r(3) start(2) by (simp add: t_def)
    ultimately show ?thesis
      unfolding counter_activation_once [OF once] c1_def [symmetric] using r(1,2)
      by (intro exI [of _ c'] exI [of _ ?vs]) (simp add: t_def)
  qed
qed

subsection \<open>Exact arithmetic\<close>

text \<open>
  One call of \<open>updateCounter\<close> from the frame queue when the arithmetic is exact
  and the numbers are small, written for a closure given field by field.
\<close>

lemma number_exact: "- 126 \<le> x \<Longrightarrow> x \<le> 126 \<Longrightarrow> number (\<lambda>x. x) x = Num x"
  using MAX_VALUE_large by (intro number_Num) linarith+








text \<open>
  Claim C8.  Whatever the \<open>data-target\<close> attribute is (also a missing one), on
  arithmetic with a relative rounding error of at most one thousandth the chain of
  \<open>updateCounter\<close> calls started by the activation ends: no call is left queued, the
  last call found \<open>current < target\<close> false, and at most 201 values were written,
  one per call (125 when the arithmetic is exact).
\<close>

theorem counter_loop_terminates:
  assumes err: "\<And>x. \<bar>rnd x - x\<bar> \<le> \<bar>x\<bar> / 1000"
  shows "\<exists>c'. animation (notify counter_callback [\<lparr>target = e, isIntersecting = True\<rparr>]
       (animateCounter rnd e attr)) = Some c' \<and>
     animationFrames c' = 0 \<and> \<not> js_lt (current c') (goal c') \<and>
     length (displayed c') \<le> 201"
proof -
  define c1 where "c1 = unobserve e (updateCounter (activated e (animateCounter rnd e attr)))"
  from counter_activation_ends [OF err c1_def]
  obtain c' where "animation c1 = Some c'" "animationFrames c' = 0"
    "\<not> js_lt (current c') (goal c')" "length (displayed c') \<le> 201"
    by blast
  then show ?thesis
    unfolding counter_activation c1_def [symmetric] by blast
qed

theorem counter_loop_terminates_witness:
  "map_option animationFrames
     (animation (notify counter_callback [\<lparr>target = 4, isIntersecting = True\<rparr>]
        (animateCounter (\<lambda>x. x) 4 (Some ''-250'')))) = Some 0"
proof -
  have r: "\<bar>(\<lambda>x. x) x - x\<bar> \<le> \<bar>x\<bar> / 1000" for x :: rat by simp
  from counter_loop_terminates [where rnd = "\<lambda>x. x" and e = 4
      and attr = "Some ''-250''", OF r]
  show ?thesis by auto
qed

section \<open>Properties of the visibility observer\<close>

text \<open>
  All three callbacks have the same shape: for every record that reports its element
  as intersecting they run the activation action and unobserve the element.  The
  first lemmas are about any callback of this shape.
\<close>

lemma forEach_from_observer:
  fixes f :: "entry \<Rightarrow> nat \<Rightarrow> 'a IntersectionObserver_scheme \<Rightarrow> 'a IntersectionObserver_scheme"
  assumes obs: "\<And>x i s. observationTargets (f x i s) =
      (if isIntersecting x then removeAll (target x) (observationTargets s)
       else observationTargets s)"
    and act: "\<And>x i s. activations (f x i s) =
      (if isIntersecting x then activations s @ [target x] else activations s)"
  shows "activations (forEach_from i f xs s) =
      activations s @ map target (filter isIntersecting xs) \<and>
    set (observationTargets (forEach_from i f xs s)) =
      set (observationTargets s) - target ` {x \<in> set xs. isIntersecting x}"
proof (induction xs arbitrary: i s)
  case Nil
  show ?case by simp
next
  case (Cons x xs)
  show ?case
    using Cons.IH [of "Suc i" "f x i s"] by (auto simp: obs act)
qed

lemma count_list_targets:
  "count_list (map target (filter isIntersecting (filter (\<lambda>r. target r \<in> T) b))) e =
   (if e \<in> T then reports e b else 0)"
  by (induction b) (auto simp: reports_def)

lemma reports_positive:
  "0 < reports e b \<longleftrightarrow> (\<exists>r \<in> set b. target r = e \<and> isIntersecting r)"
  by (induction b) (auto simp: reports_def)

lemma notify_observer:
  fixes f :: "entry \<Rightarrow> nat \<Rightarrow> 'a IntersectionObserver_scheme \<Rightarrow> 'a IntersectionObserver_scheme"
  assumes obs: "\<And>x i s. observationTargets (f x i s) =
      (if isIntersecting x then removeAll (target x) (observationTargets s)
       else observationTargets s)"
    and act: "\<And>x i s. activations (f x i s) =
      (if isIntersecting x then activations s @ [target x] else activations s)"
  shows "count_list (activations (notify (forEach f) b s)) e =
      count_list (activations s) e +
      (if e \<in> set (observationTargets s) then reports e b else 0)"
    and "e \<in> set (observationTargets (notify (forEach f) b s)) \<longleftrightarrow>
      e \<in> set (observationTargets s) \<and> reports e b = 0"
proof -
  let ?q = "filter (\<lambda>r. target r \<in> set (observationTargets s)) b"
  note fe = forEach_from_observer [of f, OF obs act, of 0 ?q s]
  have empty: "?q = [] \<Longrightarrow> e \<in> set (observationTargets s) \<Longrightarrow> reports e b = 0"
    by (auto simp: reports_def filter_empty_conv)
  show "count_list (activations (notify (forEach f) b s)) e =
      count_list (activations s) e +
      (if e \<in> set (observationTargets s) then reports e b else 0)"
    using fe empty count_list_targets [of "set (observationTargets s)" b e]
    by (auto simp: notify_def forEach_def Let_def)
  have "e \<in> set (observationTargets (forEach_from 0 f ?q s)) \<longleftrightarrow>
      e \<in> set (observationTargets s) \<and> reports e b = 0"
    using fe reports_positive [of e b] by auto
  then show "e \<in> set (observationTargets (notify (forEach f) b s)) \<longleftrightarrow>
      e \<in> set (observationTargets s) \<and> reports e b = 0"
    using empty by (auto simp: notify_def forEach_def Let_def)
qed


lemma deliveries_append:
  "deliveries cb (xs @ ys) s = deliveries cb ys (deliveries cb xs s)"
  by (simp add: deliveries_def)

lemma deliveries_Cons: "deliveries cb (b # bs) s = deliveries cb bs (notify cb b s)"
  by (simp add: deliveries_def)

lemma deliveries_unobserved:
  assumes cnt: "\<And>b s. count_list (activations (notify cb b s)) e =
      count_list (activations s) e +
      (if e \<in> set (observationTargets s) then reports e b else 0)"
    and obs: "\<And>b s. e \<in> set (observationTargets (notify cb b s)) \<longleftrightarrow>
      e \<in> set (observationTargets s) \<and> reports e b = 0"
  shows "e \<notin> set (observationTargets s) \<Longrightarrow>
    count_list (activations (deliveries cb bs s)) e = count_list (activations s) e \<and>
    e \<notin> set (observationTargets (deliveries cb bs s))"
proof (induction bs arbitrary: s)
  case Nil
  then show ?case by (simp add: deliveries_def)
next
  case (Cons b bs)
  have "e \<notin> set (observationTargets (notify cb b s))" using Cons.prems obs by simp
  from Cons.IH [OF this] show ?case
    using Cons.prems cnt [of b s] by (simp add: deliveries_Cons)
qed

lemma deliveries_quiet:
  assumes cnt: "\<And>b s. count_list (activations (notify cb b s)) e =
      count_list (activations s) e +
      (if e \<in> set (observationTargets s) then reports e b else 0)"
    and obs: "\<And>b s. e \<in> set (observationTargets (notify cb b s)) \<longleftrightarrow>
      e \<in> set (observationTargets s) \<and> reports e b = 0"
  shows "e \<in> set (observationTargets s) \<Longrightarrow> \<forall>b\<in>set bs. reports e b = 0 \<Longrightarrow>
    count_list (activations (deliveries cb bs s)) e = count_list (activations s) e \<and>
    e \<in> set (observationTargets (deliveries cb bs s))"
proof (induction bs arbitrary: s)
  case Nil
  then show ?case by (simp add: deliveries_def)
next
  case (Cons b bs)
  have "e \<in> set (observationTargets (notify cb b s))" using Cons.prems obs by simp
  moreover have "\<forall>b\<in>set bs. reports e b = 0" using Cons.prems by simp
  ultimately show ?case
    using Cons.IH [of "notify cb b s"] Cons.prems cnt [of b s] by (simp add: deliveries_Cons)
qed

text \<open>
  The activation count of an observed element over a run of callbacks: nothing while
  no batch reports it, then one activation for each record of the first batch that
  reports it as intersecting, and nothing afterwards, whatever the later batches hold.
\<close>

lemma deliveries_first_report:
  assumes cnt: "\<And>b s. count_list (activations (notify cb b s)) e =
      count_list (activations s) e +
      (if e \<in> set (observationTargets s) then reports e b else 0)"
    and obs: "\<And>b s. e \<in> set (observationTargets (notify cb b s)) \<longleftrightarrow>
      e \<in> set (observationTargets s) \<and> reports e b = 0"
    and "e \<in> set (observationTargets s)" and "\<forall>b\<in>set quiet. reports e b = 0"
    and "0 < reports e b"
  shows "count_list (activations (deliveries cb (quiet @ b # later) s)) e =
      count_list (activations s) e + reports e b \<and>
    e \<notin> set (observationTargets (deliveries cb (quiet @ b # later) s))"
proof -
  let ?s1 = "deliveries cb quiet s"
  let ?s2 = "notify cb b ?s1"
  have q: "count_list (activations ?s1) e = count_list (activations s) e"
    "e \<in> set (observationTargets ?s1)"
    using deliveries_quiet [of cb e s quiet, OF cnt obs] assms(3,4) by simp_all
  have n: "count_list (activations ?s2) e = count_list (activations s) e + reports e b"
    "e \<notin> set (observationTargets ?s2)"
    using cnt [of b ?s1] obs [of b ?s1] q assms(5) by simp_all
  have "deliveries cb (quiet @ b # later) s = deliveries cb later ?s2"
    by (simp add: deliveries_append deliveries_Cons)
  then show ?thesis
    using deliveries_unobserved [of cb e ?s2 later, OF cnt obs] n by simp
qed

subsection \<open>The three callbacks\<close>

lemma counter_callback_forEach:
  "counter_callback = forEach (\<lambda>entry index c.
       if isIntersecting entry
       then unobserve (target entry) (updateCounter (activated (target entry) c))
       else c)"
  by (rule ext) (simp add: counter_callback_def)

lemma counter_notify:
  "count_list (activations (notify counter_callback b s)) e =
      count_list (activations s) e +
      (if e \<in> set (observationTargets s) then reports e b else 0)"
  "e \<in> set (observationTargets (notify counter_callback b s)) \<longleftrightarrow>
      e \<in> set (observationTargets s) \<and> reports e b = 0"
  unfolding counter_callback_forEach
  by (rule notify_observer;
      simp add: unobserve_def activated_def updateCounter_fields)+

lemma reveal_callback_forEach:
  "reveal_callback = forEach (\<lambda>entry index s.
       if isIntersecting entry
       then unobserve (target entry)
              (setTimeout (target entry) (index * 100) (activated (target entry) s))
       else s)"
  by (rule ext) (simp add: reveal_callback_def)

lemma reveal_notify:
  "count_list (activations (notify reveal_callback b s)) e =
      count_list (activations s) e +
      (if e \<in> set (observationTargets s) then reports e b else 0)"
  "e \<in> set (observationTargets (notify reveal_callback b s)) \<longleftrightarrow>
      e \<in> set (observationTargets s) \<and> reports e b = 0"
  unfolding reveal_callback_forEach
  by (rule notify_observer;
      simp add: unobserve_def activated_def setTimeout_def)+

lemma lazy_callback_forEach:
  "lazy_callback = forEach (\<lambda>entry index s.
       if isIntersecting entry
       then (let element = target entry;
                 source = dataLazy s element;
                 s = activated element s;
                 s = assign_src element source s;
                 s = s\<lparr>dataLazy := (dataLazy s)(element := None)\<rparr>
             in unobserve element s)
       else s)"
  by (rule ext) (simp add: lazy_callback_def)

lemma lazy_notify:
  "count_list (activations (notify lazy_callback b s)) e =
      count_list (activations s) e +
      (if e \<in> set (observationTargets s) then reports e b else 0)"
  "e \<in> set (observationTargets (notify lazy_callback b s)) \<longleftrightarrow>
      e \<in> set (observationTargets s) \<and> reports e b = 0"
  unfolding lazy_callback_forEach
  by (rule notify_observer;
      simp add: unobserve_def activated_def assign_src_def Let_def)+

subsection \<open>Registration\<close>

lemma forEach_from_observe:
  fixes f :: "element \<Rightarrow> nat \<Rightarrow> 'a IntersectionObserver_scheme \<Rightarrow> 'a IntersectionObserver_scheme"
  assumes "\<And>x i s. observationTargets (f x i s) =
        (if x \<in> set (observationTargets s) then observationTargets s
         else observationTargets s @ [x])"
    and "\<And>x i s. activations (f x i s) = activations s"
    and "\<And>x i s. threshold (f x i s) = threshold s"
    and "\<And>x i s. rootMargin (f x i s) = rootMargin s"
  shows "set (observationTargets (forEach_from i f xs s)) = set (observationTargets s) \<union> set xs \<and>
    activations (forEach_from i f xs s) = activations s \<and>
    threshold (forEach_from i f xs s) = threshold s \<and>
    rootMargin (forEach_from i f xs s) = rootMargin s"
proof (induction xs arbitrary: i s)
  case Nil
  show ?case by simp
next
  case (Cons x xs)
  show ?case using Cons.IH [of "Suc i" "f x i s"] by (auto simp: assms)
qed

lemma observeElements_observer:
  "set (observationTargets (observeElements elements markup)) = set elements"
  "activations (observeElements elements markup) = []"
  "threshold (observeElements elements markup) = Some (1 / 10)"
  "rootMargin (observeElements elements markup) = Some ''0px 0px -50px 0px''"
  unfolding observeElements_def forEach_def
  by (subst forEach_from_observe [THEN conjunct1] forEach_from_observe [THEN conjunct2, THEN conjunct1]
      forEach_from_observe [THEN conjunct2, THEN conjunct2, THEN conjunct1]
      forEach_from_observe [THEN conjunct2, THEN conjunct2, THEN conjunct2];
      simp add: observe_def)+

lemma lazyLoadElements_observer:
  "set (observationTargets (lazyLoadElements doc reflects src_attrs lazy_attrs)) =
     {e \<in> set doc. lazy_attrs e \<noteq> None}"
  "activations (lazyLoadElements doc reflects src_attrs lazy_attrs) = []"
  "threshold (lazyLoadElements doc reflects src_attrs lazy_attrs) = None"
  "rootMargin (lazyLoadElements doc reflects src_attrs lazy_attrs) = None"
  unfolding lazyLoadElements_def forEach_def Let_def
  by (subst forEach_from_observe [THEN conjunct1] forEach_from_observe [THEN conjunct2, THEN conjunct1]
      forEach_from_observe [THEN conjunct2, THEN conjunct2, THEN conjunct1]
      forEach_from_observe [THEN conjunct2, THEN conjunct2, THEN conjunct2];
      simp add: observe_def)+


text \<open>
  For a registered counter, reveal element or lazy element: when the batches before
  \<open>b\<close> do not report the element and \<open>b\<close> does, the activation action has run as
  often as \<open>b\<close> reports the element, however many batches follow.
\<close>

lemma activation_count:
  assumes "\<forall>b\<in>set quiet. reports e b = 0" and "0 < reports e b"
  shows "count_list (activations
           (deliveries counter_callback (quiet @ b # later) (animateCounter rnd e attr))) e =
         reports e b"
    and "e \<in> set elements \<Longrightarrow>
         count_list (activations
           (deliveries reveal_callback (quiet @ b # later) (observeElements elements markup))) e =
         reports e b"
    and "e \<in> set doc \<Longrightarrow> lazy_attrs e \<noteq> None \<Longrightarrow>
         count_list (activations
           (deliveries lazy_callback (quiet @ b # later)
              (lazyLoadElements doc reflects src_attrs lazy_attrs))) e =
         reports e b"
proof -
  show "count_list (activations
           (deliveries counter_callback (quiet @ b # later) (animateCounter rnd e attr))) e =
         reports e b"
    using deliveries_first_report [of counter_callback e "animateCounter rnd e attr" quiet b later,
        OF counter_notify] assms
    by (simp add: animateCounter_fields)
  show "count_list (activations
           (deliveries reveal_callback (quiet @ b # later) (observeElements elements markup))) e =
         reports e b" if "e \<in> set elements"
    using deliveries_first_report [of reveal_callback e "observeElements elements markup"
        quiet b later, OF reveal_notify] assms that
    by (simp add: observeElements_observer)
  show "count_list (activations
           (deliveries lazy_callback (quiet @ b # later)
              (lazyLoadElements doc reflects src_attrs lazy_attrs))) e =
         reports e b" if "e \<in> set doc" "lazy_attrs e \<noteq> None"
    using deliveries_first_report [of lazy_callback e
        "lazyLoadElements doc reflects src_attrs lazy_attrs" quiet b later, OF lazy_notify]
      assms that
    by (simp add: lazyLoadElements_observer)
qed

text \<open>
  Claim C1 says that the activation action of a registered entry runs at most once.
  A batch can hold several records of one element, since the browser queues one
  record for each change of the element's intersection state and hands all queued
  records to one call of the callback.  For the batch that reports element 0 as
  intersecting, as not intersecting and as intersecting again, each of the three
  callbacks runs its activation action twice: two calls of \<open>updateCounter\<close> (two
  values written at once), two timers, and a second copy of the staging attribute
  that is gone by then, which leaves \<open>src\<close> holding \<open>''null''\<close>.
\<close>

theorem activation_repeated_in_one_batch:
  "count_list (activations (notify counter_callback
      [\<lparr>target = 0, isIntersecting = True\<rparr>, \<lparr>target = 0, isIntersecting = False\<rparr>,
       \<lparr>target = 0, isIntersecting = True\<rparr>]
      (animateCounter (\<lambda>x. x) 0 (Some ''100'')))) 0 = 2 \<and>
   displayed (notify counter_callback
      [\<lparr>target = 0, isIntersecting = True\<rparr>, \<lparr>target = 0, isIntersecting = False\<rparr>,
       \<lparr>target = 0, isIntersecting = True\<rparr>]
      (animateCounter (\<lambda>x. x) 0 (Some ''100''))) = [Num 0, Num 1] \<and>
   count_list (activations (notify reveal_callback
      [\<lparr>target = 0, isIntersecting = True\<rparr>, \<lparr>target = 0, isIntersecting = False\<rparr>,
       \<lparr>target = 0, isIntersecting = True\<rparr>]
      (observeElements [0] (\<lambda>e. \<lparr>opacity = [], transform = [], transition = []\<rparr>)))) 0 = 2 \<and>
   timeouts (notify reveal_callback
      [\<lparr>target = 0, isIntersecting = True\<rparr>, \<lparr>target = 0, isIntersecting = False\<rparr>,
       \<lparr>target = 0, isIntersecting = True\<rparr>]
      (observeElements [0] (\<lambda>e. \<lparr>opacity = [], transform = [], transition = []\<rparr>))) =
     [(0, 0), (200, 0)] \<and>
   count_list (activations (notify lazy_callback
      [\<lparr>target = 0, isIntersecting = True\<rparr>, \<lparr>target = 0, isIntersecting = False\<rparr>,
       \<lparr>target = 0, isIntersecting = True\<rparr>]
      (lazyLoadElements [0] (\<lambda>e. True) Map.empty [0 \<mapsto> ''photo.png'']))) 0 = 2 \<and>
   src (notify lazy_callback
      [\<lparr>target = 0, isIntersecting = True\<rparr>, \<lparr>target = 0, isIntersecting = False\<rparr>,
       \<lparr>target = 0, isIntersecting = True\<rparr>]
      (lazyLoadElements [0] (\<lambda>e. True) Map.empty [0 \<mapsto> ''photo.png''])) 0 = Some ''null''"
  by code_simp

subsection \<open>Counters on one page\<close>

lemma forEach_from_invariant:
  assumes "\<And>x i s. P s \<Longrightarrow> P (f x i s)"
  shows "P s \<Longrightarrow> P (forEach_from i f xs s)"
  by (induction xs arbitrary: i s) (simp_all add: assms)

text \<open>
  A closure whose target is \<open>NaN\<close>: every call of \<open>updateCounter\<close> writes \<open>NaN\<close>
  and requests no frame, so after any callbacks no call is queued and the element has
  been given \<open>NaN\<close> once for each activation.
\<close>

lemma counter_NaN_deliveries:
  assumes "goal s = NaN" "animationFrames s = 0"
    "displayed s = replicate (length (activations s)) NaN"
    "textContent s = (if activations s = [] then None else Some NaN)"
  shows "goal (deliveries counter_callback bs s) = NaN"
    "animationFrames (deliveries counter_callback bs s) = 0"
    "displayed (deliveries counter_callback bs s) =
       replicate (length (activations (deliveries counter_callback bs s))) NaN"
    "textContent (deliveries counter_callback bs s) =
       (if activations (deliveries counter_callback bs s) = [] then None else Some NaN)"
proof -
  define P where "P = (\<lambda>c :: counter. goal c = NaN \<and> animationFrames c = 0 \<and>
      displayed c = replicate (length (activations c)) NaN \<and>
      textContent c = (if activations c = [] then None else Some NaN))"
  have step: "P (if isIntersecting x
       then unobserve (target x) (updateCounter (activated (target x) c))
       else c)" if "P c" for x :: entry and c
    using that
    by (simp add: P_def unobserve_def updateCounter_def activated_def Let_def
        replicate_append_same)
  have cb: "P (notify counter_callback b c)" if "P c" for b c
    unfolding notify_def Let_def counter_callback_def forEach_def
    using that by (simp add: forEach_from_invariant [where P = P] step)
  have "P (deliveries counter_callback bs c)" if "P c" for c
    using that by (induction bs arbitrary: c) (simp_all add: deliveries_def cb)
  then have "P (deliveries counter_callback bs s)" using assms by (simp add: P_def)
  then show "goal (deliveries counter_callback bs s) = NaN"
    "animationFrames (deliveries counter_callback bs s) = 0"
    "displayed (deliveries counter_callback bs s) =
       replicate (length (activations (deliveries counter_callback bs s))) NaN"
    "textContent (deliveries counter_callback bs s) =
       (if activations (deliveries counter_callback bs s) = [] then None else Some NaN)"
    by (simp_all add: P_def)
qed

lemma counter_notify_activations:
  "activations (notify counter_callback b (animateCounter rnd e attr)) =
   replicate (reports e b) e"
proof -
  let ?c = "animateCounter rnd e attr"
  let ?q = "filter (\<lambda>r. target r \<in> set (observationTargets ?c)) b"
  have q: "?q = filter (\<lambda>r. target r = e) b" by (simp add: animateCounter_fields)
  have r: "map target (filter isIntersecting (filter (\<lambda>r. target r = e) b)) =
      replicate (reports e b) e"
    by (induction b) (simp_all add: reports_def)
  have fe: "activations (forEach_from 0 (\<lambda>entry index c.
       if isIntersecting entry
       then unobserve (target entry) (updateCounter (activated (target entry) c))
       else c) ?q ?c) = activations ?c @ map target (filter isIntersecting ?q)"
    by (rule forEach_from_observer [THEN conjunct1])
      (simp_all add: unobserve_def activated_def updateCounter_fields)
  show ?thesis
  proof (cases "?q = []")
    case True
    then have "map target (filter isIntersecting ?q) = []" by simp
    then have "reports e b = 0" unfolding q r by simp
    then show ?thesis using True by (simp add: notify_def Let_def animateCounter_fields)
  next
    case False
    then have "notify counter_callback b ?c = counter_callback ?q ?c"
      by (simp add: notify_def Let_def)
    then show ?thesis
      using fe unfolding q r
      by (simp add: counter_callback_def forEach_def animateCounter_fields)
  qed
qed

text \<open>The frames of a page: every counter takes its own frames.\<close>

lemma page_frame_funpow:
  "(page_frame ^^ K) page = map (\<lambda>(e, c). (e, (animationFrame ^^ K) c)) page"
proof (induction K)
  case 0
  show ?case by (simp add: case_prod_beta)
next
  case (Suc K)
  then show ?case by (simp add: page_frame_def case_prod_beta)
qed

lemma page_frame_idle:
  assumes "list_all (\<lambda>(e, c). animationFrames c = 0) page"
  shows "page_frame page = page"
  unfolding page_frame_def
  using assms by (intro map_idI) (auto simp: list_all_iff animationFrame_idle)

lemma page_frame_idle_funpow:
  assumes "list_all (\<lambda>(e, c). animationFrames c = 0) page"
  shows "(page_frame ^^ K) page = page"
  by (induction K) (simp_all add: page_frame_idle [OF assms])

lemma page_animation_at:
  "list_all (\<lambda>(e, c). animationFrames c = 0) ((page_frame ^^ K) page) \<Longrightarrow>
   page_animation page = Some ((page_frame ^^ K) page)"
proof (induction K arbitrary: page)
  case 0
  then show ?case by (subst page_animation.simps) simp
next
  case (Suc K)
  show ?case
  proof (cases "list_all (\<lambda>(e, c). animationFrames c = 0) page")
    case True
    have same: "(page_frame ^^ Suc K) page = page" by (rule page_frame_idle_funpow [OF True])
    have "page_animation page = Some page"
      using True by (subst page_animation.simps) simp
    then show ?thesis unfolding same .
  next
    case False
    have sw: "(page_frame ^^ Suc K) page = (page_frame ^^ K) (page_frame page)"
      by (simp add: funpow_swap1)
    have "page_animation page = page_animation (page_frame page)"
      using False by (subst page_animation.simps) simp
    then show ?thesis using Suc.IH [of "page_frame page"] Suc.prems unfolding sw by simp
  qed
qed

lemma animationFrame_idle_unique:
  assumes "animationFrames ((animationFrame ^^ j) c) = 0"
    and "animationFrames ((animationFrame ^^ K) c) = 0"
  shows "(animationFrame ^^ K) c = (animationFrame ^^ j) c"
proof (cases "j \<le> K")
  case True
  then have "K = j + (K - j)" by simp
  then show ?thesis using animationFrame_stays [OF assms(1), of "K - j"] by simp
next
  case False
  then have "j = K + (j - K)" by simp
  then show ?thesis using animationFrame_stays [OF assms(2), of "j - K"] by simp
qed

lemma all_idle_eventually:
  "\<forall>(e, c)\<in>set page. \<exists>j. animationFrames ((animationFrame ^^ j) c) = 0 \<Longrightarrow>
   \<exists>K. \<forall>(e, c)\<in>set page. animationFrames ((animationFrame ^^ K) c) = 0"
proof (induction page)
  case Nil
  show ?case by simp
next
  case (Cons p page)
  obtain e c where p: "p = (e, c)" by (cases p)
  from Cons.prems obtain j where j: "animationFrames ((animationFrame ^^ j) c) = 0"
    by (auto simp: p)
  from Cons obtain K where K: "\<forall>(e, c)\<in>set page. animationFrames ((animationFrame ^^ K) c) = 0"
    by auto
  have "animationFrames ((animationFrame ^^ (j + K)) c) = 0"
    using animationFrame_stays [OF j, of K] j by simp
  moreover have "animationFrames ((animationFrame ^^ (j + K)) c') = 0"
    if "(e', c') \<in> set page" for e' c'
  proof -
    have k: "animationFrames ((animationFrame ^^ K) c') = 0" using K that by auto
    have "(animationFrame ^^ (K + j)) c' = (animationFrame ^^ K) c'"
      using k by (rule animationFrame_stays)
    then show ?thesis using k by (simp add: add.commute)
  qed
  ultimately show ?case by (intro exI [of _ "j + K"]) (auto simp: p)
qed

text \<open>
  When every counter of a page comes to rest after some frames of its own, the
  animation of the page ends, and every counter ends in the state in which it came to
  rest.
\<close>

lemma page_animation_ends:
  assumes "\<forall>(e, c)\<in>set page. \<exists>j. animationFrames ((animationFrame ^^ j) c) = 0"
  shows "\<exists>K. page_animation page = Some (map (\<lambda>(e, c). (e, (animationFrame ^^ K) c)) page) \<and>
     (\<forall>(e, c)\<in>set page. animationFrames ((animationFrame ^^ K) c) = 0)"
proof -
  from all_idle_eventually [OF assms]
  obtain K where K: "\<forall>(e, c)\<in>set page. animationFrames ((animationFrame ^^ K) c) = 0"
    by blast
  then have "list_all (\<lambda>(e, c). animationFrames c = 0) ((page_frame ^^ K) page)"
    unfolding page_frame_funpow by (auto simp: list_all_iff)
  from page_animation_at [OF this] K show ?thesis
    unfolding page_frame_funpow by blast
qed

text \<open>
  Claim C3, as the code has it.  A counter \<open>m\<close> whose \<open>data-target\<close> attribute is
  missing or does not parse has the target \<open>NaN\<close>.  It is registered and observed
  like every other counter, and nothing is written before it is reported as
  intersecting.  Whatever batches its observer is given, no call of \<open>updateCounter\<close>
  is ever left queued for it, and the element has been given \<open>NaN\<close> once for each
  run of the activation.  It does not hold up the other counters of the page: on
  arithmetic with a relative rounding error of at most one thousandth, when a batch
  reports every other counter once (and \<open>m\<close> any number of times), the animation of
  the page ends, \<open>m\<close> has been given \<open>NaN\<close> once for each record that reports it,
  and every other counter has been activated once and shows its own target.  The
  closures of the page are listed in document order: those of the counters before
  \<open>m\<close>, that of \<open>m\<close>, those of the counters after \<open>m\<close>.
\<close>

theorem counter_unparsable_target:
  fixes rnd :: "rat \<Rightarrow> rat"
  assumes err: "\<And>x. \<bar>rnd x - x\<bar> \<le> \<bar>x\<bar> / 1000"
    and nan: "parseInt rnd (ToString attr) = NaN"
    and once: "\<forall>(e, a)\<in>set (before @ after). reports e batch = 1"
  shows "observationTargets (animateCounter rnd m attr) = [m] \<and>
     activations (animateCounter rnd m attr) = [] \<and>
     textContent (animateCounter rnd m attr) = None \<and>
     (let c = deliveries counter_callback batches (animateCounter rnd m attr)
      in animationFrames c = 0 \<and> animation c = Some c \<and>
         displayed c = replicate (length (activations c)) NaN \<and>
         textContent c = (if activations c = [] then None else Some NaN)) \<and>
     (\<exists>pb cm pa. page_animation (page_notify batch
              (animateCounters rnd (before @ (m, attr) # after))) = Some (pb @ (m, cm) # pa) \<and>
        animationFrames cm = 0 \<and> displayed cm = replicate (reports m batch) NaN \<and>
        list_all2 (\<lambda>(e, a) (e', c). e' = e \<and> animationFrames c = 0 \<and> activations c = [e] \<and>
            textContent c = Some (parseInt rnd (ToString a))) before pb \<and>
        list_all2 (\<lambda>(e, a) (e', c). e' = e \<and> animationFrames c = 0 \<and> activations c = [e] \<and>
            textContent c = Some (parseInt rnd (ToString a))) after pa)"
proof -
  let ?cs = "before @ (m, attr) # after"
  let ?n = "\<lambda>e a. notify counter_callback batch (animateCounter rnd e a)"
  let ?page = "page_notify batch (animateCounters rnd ?cs)"
  have fresh: "goal (animateCounter rnd m attr) = NaN"
    "animationFrames (animateCounter rnd m attr) = 0"
    "displayed (animateCounter rnd m attr) =
       replicate (length (activations (animateCounter rnd m attr))) NaN"
    "textContent (animateCounter rnd m attr) =
       (if activations (animateCounter rnd m attr) = [] then None else Some NaN)"
    using nan by (simp_all add: animateCounter_fields)
  note any = counter_NaN_deliveries [OF fresh]
  have part2: "let c = deliveries counter_callback batches (animateCounter rnd m attr)
      in animationFrames c = 0 \<and> animation c = Some c \<and>
         displayed c = replicate (length (activations c)) NaN \<and>
         textContent c = (if activations c = [] then None else Some NaN)"
    using any [of batches] by (simp add: Let_def animation_idle)
  have nm: "animationFrames (?n m attr) = 0"
    "displayed (?n m attr) = replicate (reports m batch) NaN"
    using any(2,3) [of "[batch]"] counter_notify_activations [of batch rnd m attr]
    by (simp_all add: deliveries_def)
  have other: "\<exists>c' j. c' = (animationFrame ^^ j) (?n e a) \<and> animationFrames c' = 0 \<and>
      activations c' = [e] \<and> textContent c' = Some (parseInt rnd (ToString a))"
    if "(e, a) \<in> set (before @ after)" for e a
  proof -
    have "reports e batch = 1" using once that by auto
    from counter_activation_once [OF this]
    have n: "?n e a = unobserve e (updateCounter (activated e (animateCounter rnd e a)))" .
    from counter_activation_ends [OF err n] show ?thesis by auto
  qed
  have page: "?page = map (\<lambda>(e, a). (e, ?n e a)) ?cs"
    by (simp add: page_notify_def animateCounters_def case_prod_beta)
  have rest: "\<forall>(e, c)\<in>set ?page. \<exists>j. animationFrames ((animationFrame ^^ j) c) = 0"
  proof -
    have "\<exists>j. animationFrames ((animationFrame ^^ j) (?n e a)) = 0"
      if "(e, a) \<in> set ?cs" for e a
    proof (cases "(e, a) = (m, attr)")
      case True
      then have "animationFrames ((animationFrame ^^ 0) (?n e a)) = 0" using nm(1) by simp
      then show ?thesis by blast
    next
      case False
      then have "(e, a) \<in> set (before @ after)" using that by auto
      from other [OF this] show ?thesis by auto
    qed
    then show ?thesis unfolding page by auto
  qed
  from page_animation_ends [OF rest]
  obtain K where K: "page_animation ?page =
        Some (map (\<lambda>(e, c). (e, (animationFrame ^^ K) c)) ?page)"
      "\<forall>(e, c)\<in>set ?page. animationFrames ((animationFrame ^^ K) c) = 0"
    by blast
  let ?R = "\<lambda>(e, a) (e', c). e' = e \<and> animationFrames c = 0 \<and> activations c = [e] \<and>
      textContent c = Some (parseInt rnd (ToString a))"
  define G where "G = (\<lambda>(e, a). (e, (animationFrame ^^ K) (?n e a)))"
  have idleK: "animationFrames ((animationFrame ^^ K) (?n e a)) = 0"
    if "(e, a) \<in> set ?cs" for e a
    using K(2) that unfolding page by auto
  have m_in: "(m, attr) \<in> set ?cs" by simp
  have "(animationFrame ^^ K) (?n m attr) = (animationFrame ^^ 0) (?n m attr)"
    using idleK [OF m_in] nm(1) by (intro animationFrame_idle_unique) simp_all
  then have mK: "(animationFrame ^^ K) (?n m attr) = ?n m attr" by simp
  have p': "map (\<lambda>(e, c). (e, (animationFrame ^^ K) c)) ?page =
      map G before @ (m, ?n m attr) # map G after"
    unfolding page G_def using mK by (simp add: case_prod_beta)
  have R: "?R x (G x)" if x: "x \<in> set (before @ after)" for x
  proof -
    obtain e a where ea: "x = (e, a)" by (cases x)
    have in_cs: "(e, a) \<in> set ?cs" using x ea by auto
    from other [of e a] x ea obtain c' j where c': "c' = (animationFrame ^^ j) (?n e a)"
        "animationFrames c' = 0" "activations c' = [e]"
        "textContent c' = Some (parseInt rnd (ToString a))"
      by blast
    have "(animationFrame ^^ K) (?n e a) = (animationFrame ^^ j) (?n e a)"
      using c'(1,2) idleK [OF in_cs] by (intro animationFrame_idle_unique) simp_all
    then show ?thesis using c' by (simp add: ea G_def)
  qed
  have lb: "list_all2 ?R before (map G before)"
    unfolding list_all2_map2 list_all2_same using R by simp
  have la: "list_all2 ?R after (map G after)"
    unfolding list_all2_map2 list_all2_same using R by simp
  have part3: "\<exists>pb cm pa. page_animation ?page = Some (pb @ (m, cm) # pa) \<and>
        animationFrames cm = 0 \<and> displayed cm = replicate (reports m batch) NaN \<and>
        list_all2 ?R before pb \<and> list_all2 ?R after pa"
    using K(1) nm lb la unfolding p' by blast
  have part1: "observationTargets (animateCounter rnd m attr) = [m]"
    "activations (animateCounter rnd m attr) = []"
    "textContent (animateCounter rnd m attr) = None"
    by (simp_all add: animateCounter_fields)
  show ?thesis using part1 part2 part3 by blast
qed

theorem counter_unparsable_target_witness:
  "parseInt (\<lambda>x. x) (ToString None) = NaN \<and>
   reports 1 [\<lparr>target = 1, isIntersecting = True\<rparr>, \<lparr>target = 2, isIntersecting = True\<rparr>,
              \<lparr>target = 3, isIntersecting = True\<rparr>] = 1 \<and>
   reports 3 [\<lparr>target = 1, isIntersecting = True\<rparr>, \<lparr>target = 2, isIntersecting = True\<rparr>,
              \<lparr>target = 3, isIntersecting = True\<rparr>] = 1 \<and>
   observationTargets (animateCounter (\<lambda>x. x) 2 None) = [2] \<and>
   animationFrames (deliveries counter_callback [[\<lparr>target = 2, isIntersecting = True\<rparr>]]
      (animateCounter (\<lambda>x. x) 2 None)) = 0 \<and>
   (\<exists>c1 c2 c3. page_animation (page_notify
        [\<lparr>target = 1, isIntersecting = True\<rparr>, \<lparr>target = 2, isIntersecting = True\<rparr>,
         \<lparr>target = 3, isIntersecting = True\<rparr>]
        (animateCounters (\<lambda>x. x) ([(1, Some ''40'')] @ (2, None) # [(3, Some ''9'')]))) =
        Some [(1, c1), (2, c2), (3, c3)] \<and>
      activations c1 = [1] \<and> textContent c1 = Some (Num 40) \<and>
      displayed c2 = [NaN] \<and>
      activations c3 = [3] \<and> textContent c3 = Some (Num 9))"
proof -
  let ?batch = "[\<lparr>target = 1, isIntersecting = True\<rparr>, \<lparr>target = 2, isIntersecting = True\<rparr>,
         \<lparr>target = 3, isIntersecting = True\<rparr>]"
  have r: "\<bar>(\<lambda>x. x) x - x\<bar> \<le> \<bar>x\<bar> / 1000" for x :: rat by simp
  have h: "parseInt (\<lambda>x. x) (ToString None) = NaN" by (rule parseInt_null)
  have rep: "reports 1 ?batch = 1" "reports 2 ?batch = 1" "reports 3 ?batch = 1"
    by (simp_all add: reports_def)
  have o: "\<forall>(e, a)\<in>set ([(1, Some ''40'')] @ [(3, Some ''9'')]). reports e ?batch = 1"
    using rep by simp
  have p: "parseInt (\<lambda>x. x) (ToString (Some ''40'')) = Num 40"
    "parseInt (\<lambda>x. x) (ToString (Some ''9'')) = Num 9"
    by (simp_all add: parseInt_def ToString_def isWhiteSpace_def radixDigit_def digitValue_def
        mathInt_def number_exact)
  from counter_unparsable_target [where rnd = "\<lambda>x. x" and attr = None
      and before = "[(1, Some ''40'')]" and m = 2 and after = "[(3, Some ''9'')]"
      and batch = ?batch and batches = "[[\<lparr>target = 2, isIntersecting = True\<rparr>]]",
      OF r h o]
  show ?thesis using h rep p by (auto simp: Let_def list_all2_Cons1)
qed

text \<open>
  The counter with \<open>data-target="abc"\<close>, on exact arithmetic: after its activation
  the element holds \<open>NaN\<close>, not 0, and before it the counter is observed and not yet
  activated.
\<close>

theorem counter_unparsable_counterexample:
  "map_option textContent
     (animation (notify counter_callback [\<lparr>target = 0, isIntersecting = True\<rparr>]
        (animateCounter (\<lambda>x. x) 0 (Some ''abc'')))) = Some (Some NaN) \<and>
   map_option textContent
     (animation (notify counter_callback [\<lparr>target = 0, isIntersecting = True\<rparr>]
        (animateCounter (\<lambda>x. x) 0 (Some ''abc'')))) \<noteq> Some (Some (Num 0)) \<and>
   observationTargets (animateCounter (\<lambda>x. x) 0 (Some ''abc'')) = [0] \<and>
   activations (animateCounter (\<lambda>x. x) 0 (Some ''abc'')) = []"
  by code_simp

subsection \<open>Lazy media\<close>

lemma reports_Cons:
  "reports e (r # b) = (if target r = e \<and> isIntersecting r then 1 else 0) + reports e b"
  by (simp add: reports_def)

lemma reports_filter_observed:
  "e \<in> T \<Longrightarrow> reports e (filter (\<lambda>r. target r \<in> T) b) = reports e b"
  by (induction b) (auto simp: reports_Cons)

lemma reports_filter_unobserved:
  "e \<notin> T \<Longrightarrow> reports e (filter (\<lambda>r. target r \<in> T) b) = 0"
  by (induction b) (auto simp: reports_Cons reports_def)

lemma forEach_from_view:
  assumes other: "\<And>x i s. \<not> (target x = e \<and> isIntersecting x) \<Longrightarrow> g (f x i s) = g s"
    and hit: "\<And>x i s. target x = e \<Longrightarrow> isIntersecting x \<Longrightarrow> g (f x i s) = h (g s)"
  shows "reports e xs = 0 \<Longrightarrow> g (forEach_from i f xs s) = g s"
    and "reports e xs = 1 \<Longrightarrow> g (forEach_from i f xs s) = h (g s)"
proof -
  show none: "reports e xs = 0 \<Longrightarrow> g (forEach_from i f xs s) = g s" for xs i s
  proof (induction xs arbitrary: i s)
    case Nil
    show ?case by simp
  next
    case (Cons x xs)
    from Cons.prems have r: "reports e xs = 0" "\<not> (target x = e \<and> isIntersecting x)"
      by (auto simp: reports_Cons split: if_splits)
    show ?case using Cons.IH [OF r(1)] other [OF r(2)] by simp
  qed
  show "reports e xs = 1 \<Longrightarrow> g (forEach_from i f xs s) = h (g s)"
  proof (induction xs arbitrary: i s)
    case Nil
    then show ?case by (simp add: reports_def)
  next
    case (Cons x xs)
    show ?case
    proof (cases "target x = e \<and> isIntersecting x")
      case True
      then have "reports e xs = 0" using Cons.prems by (simp add: reports_Cons)
      from none [OF this] True show ?thesis by (simp add: hit)
    next
      case False
      then have "reports e xs = 1" using Cons.prems by (auto simp: reports_Cons split: if_splits)
      from Cons.IH [OF this] other [OF False] show ?thesis by simp
    qed
  qed
qed

text \<open>
  What the lazy callback does to one element \<open>e\<close>: nothing when no record of the
  batch reports \<open>e\<close> as intersecting; with one such record, the assignment to
  \<open>e.src\<close> and the removal of \<open>data-lazy\<close>.
\<close>

lemma lazy_callback_view:
  "reports e q = 0 \<Longrightarrow>
     src (lazy_callback q s) e = src s e \<and> srcProperty (lazy_callback q s) e = srcProperty s e \<and>
     dataLazy (lazy_callback q s) e = dataLazy s e \<and>
     reflectsSrc (lazy_callback q s) e = reflectsSrc s e"
  "reports e q = 1 \<Longrightarrow>
     src (lazy_callback q s) e =
       (if reflectsSrc s e then Some (ToString (dataLazy s e)) else src s e) \<and>
     srcProperty (lazy_callback q s) e =
       (if reflectsSrc s e then srcProperty s e else Some (dataLazy s e)) \<and>
     dataLazy (lazy_callback q s) e = None \<and>
     reflectsSrc (lazy_callback q s) e = reflectsSrc s e"
proof -
  define f where "f = (\<lambda>(entry::entry) (index::nat) (s::lazy).
       if isIntersecting entry
       then (let element = target entry;
                 source = dataLazy s element;
                 s = activated element s;
                 s = assign_src element source s;
                 s = s\<lparr>dataLazy := (dataLazy s)(element := None)\<rparr>
             in unobserve element s)
       else s)"
  define g where "g = (\<lambda>s :: lazy. (reflectsSrc s e, src s e, srcProperty s e, dataLazy s e))"
  define h where "h = (\<lambda>(r :: bool, a :: string option, p :: string option option,
      l :: string option).
      (r, if r then Some (ToString l) else a, if r then p else Some l, None :: string option))"
  have cb: "lazy_callback q s = forEach_from 0 f q s"
    by (simp add: lazy_callback_def forEach_def f_def)
  have other: "\<not> (target x = e \<and> isIntersecting x) \<Longrightarrow> g (f x i s) = g s" for x i s
    by (auto simp: f_def g_def Let_def unobserve_def activated_def assign_src_def)
  have hit: "target x = e \<Longrightarrow> isIntersecting x \<Longrightarrow> g (f x i s) = h (g s)" for x i s
    by (auto simp: f_def g_def h_def Let_def unobserve_def activated_def assign_src_def)
  show "reports e q = 0 \<Longrightarrow>
     src (lazy_callback q s) e = src s e \<and> srcProperty (lazy_callback q s) e = srcProperty s e \<and>
     dataLazy (lazy_callback q s) e = dataLazy s e \<and>
     reflectsSrc (lazy_callback q s) e = reflectsSrc s e"
    using forEach_from_view(1) [where e = e and g = g and f = f and h = h and xs = q
        and i = 0 and s = s, OF other hit]
    by (simp add: cb g_def)
  show "reports e q = 1 \<Longrightarrow>
     src (lazy_callback q s) e =
       (if reflectsSrc s e then Some (ToString (dataLazy s e)) else src s e) \<and>
     srcProperty (lazy_callback q s) e =
       (if reflectsSrc s e then srcProperty s e else Some (dataLazy s e)) \<and>
     dataLazy (lazy_callback q s) e = None \<and>
     reflectsSrc (lazy_callback q s) e = reflectsSrc s e"
    using forEach_from_view(2) [where e = e and g = g and f = f and h = h and xs = q
        and i = 0 and s = s, OF other hit]
    by (simp add: cb g_def h_def)
qed

lemma lazy_notify_untouched:
  assumes "reports e b = 0 \<or> e \<notin> set (observationTargets s)"
  shows "src (notify lazy_callback b s) e = src s e"
    "srcProperty (notify lazy_callback b s) e = srcProperty s e"
    "dataLazy (notify lazy_callback b s) e = dataLazy s e"
    "reflectsSrc (notify lazy_callback b s) e = reflectsSrc s e"
proof -
  have r: "reports e (filter (\<lambda>r. target r \<in> set (observationTargets s)) b) = 0"
  proof (cases "e \<in> set (observationTargets s)")
    case True
    then show ?thesis using assms by (simp add: reports_filter_observed)
  next
    case False
    then show ?thesis by (rule reports_filter_unobserved)
  qed
  from lazy_callback_view(1) [OF r]
  show "src (notify lazy_callback b s) e = src s e"
    "srcProperty (notify lazy_callback b s) e = srcProperty s e"
    "dataLazy (notify lazy_callback b s) e = dataLazy s e"
    "reflectsSrc (notify lazy_callback b s) e = reflectsSrc s e"
    by (simp_all add: notify_def Let_def)
qed

lemma lazy_notify_once:
  assumes "reports e b = 1" "e \<in> set (observationTargets s)"
  shows "src (notify lazy_callback b s) e =
      (if reflectsSrc s e then Some (ToString (dataLazy s e)) else src s e)"
    "srcProperty (notify lazy_callback b s) e =
      (if reflectsSrc s e then srcProperty s e else Some (dataLazy s e))"
    "dataLazy (notify lazy_callback b s) e = None"
proof -
  let ?q = "filter (\<lambda>r. target r \<in> set (observationTargets s)) b"
  have r: "reports e ?q = 1" using assms by (simp add: reports_filter_observed)
  have ne: "?q \<noteq> []"
  proof
    assume empty: "?q = []"
    have "reports e [] = 0" by (simp add: reports_def)
    then show False using r unfolding empty by simp
  qed
  from lazy_callback_view(2) [OF r] ne
  show "src (notify lazy_callback b s) e =
      (if reflectsSrc s e then Some (ToString (dataLazy s e)) else src s e)"
    "srcProperty (notify lazy_callback b s) e =
      (if reflectsSrc s e then srcProperty s e else Some (dataLazy s e))"
    "dataLazy (notify lazy_callback b s) e = None"
    by (simp_all add: notify_def Let_def)
qed

lemma lazy_deliveries_untouched:
  "\<forall>b\<in>set bs. reports e b = 0 \<Longrightarrow>
   src (deliveries lazy_callback bs s) e = src s e \<and>
   srcProperty (deliveries lazy_callback bs s) e = srcProperty s e \<and>
   dataLazy (deliveries lazy_callback bs s) e = dataLazy s e \<and>
   reflectsSrc (deliveries lazy_callback bs s) e = reflectsSrc s e"
proof (induction bs arbitrary: s)
  case Nil
  show ?case by (simp add: deliveries_def)
next
  case (Cons b bs)
  then show ?case
    by (simp add: deliveries_Cons lazy_notify_untouched)
qed

lemma lazy_deliveries_unobserved:
  "e \<notin> set (observationTargets s) \<Longrightarrow>
   src (deliveries lazy_callback bs s) e = src s e \<and>
   srcProperty (deliveries lazy_callback bs s) e = srcProperty s e \<and>
   dataLazy (deliveries lazy_callback bs s) e = dataLazy s e \<and>
   e \<notin> set (observationTargets (deliveries lazy_callback bs s))"
proof (induction bs arbitrary: s)
  case Nil
  then show ?case by (simp add: deliveries_def)
next
  case (Cons b bs)
  have "e \<notin> set (observationTargets (notify lazy_callback b s))"
    using Cons.prems by (simp add: lazy_notify(2))
  from Cons.IH [OF this] Cons.prems show ?case
    by (simp add: deliveries_Cons lazy_notify_untouched)
qed

lemma forEach_from_observe_lazy:
  "src (forEach_from i (\<lambda>element index s. observe element s) xs (s :: lazy)) = src s \<and>
   srcProperty (forEach_from i (\<lambda>element index s. observe element s) xs s) = srcProperty s \<and>
   dataLazy (forEach_from i (\<lambda>element index s. observe element s) xs s) = dataLazy s \<and>
   reflectsSrc (forEach_from i (\<lambda>element index s. observe element s) xs s) = reflectsSrc s"
  by (induction xs arbitrary: i s) (simp_all add: observe_def)

lemma lazyLoadElements_attrs:
  "src (lazyLoadElements doc reflects src_attrs lazy_attrs) = src_attrs"
  "srcProperty (lazyLoadElements doc reflects src_attrs lazy_attrs) = (\<lambda>e. None)"
  "dataLazy (lazyLoadElements doc reflects src_attrs lazy_attrs) = lazy_attrs"
  "reflectsSrc (lazyLoadElements doc reflects src_attrs lazy_attrs) = reflects"
  by (simp_all add: lazyLoadElements_def forEach_def Let_def forEach_from_observe_lazy)

text \<open>
  Claim C4, as the code has it.  A lazy element \<open>e\<close> with the staged value \<open>v\<close>: as
  long as no batch has reported it as intersecting, the attribute \<open>src\<close> is what the
  markup gave, no property \<open>src\<close> has been assigned, \<open>data-lazy\<close> still holds \<open>v\<close>
  and the element is observed.  When the first batch that reports it as intersecting
  holds one such record, then after that batch and whatever batches follow: \<open>v\<close> has
  been assigned to \<open>e.src\<close>, which sets the attribute \<open>src\<close> to \<open>v\<close> on an element
  whose \<open>src\<close> property reflects the attribute, and on any other element leaves the
  attribute as the markup gave it and only gives the object the property;
  \<open>data-lazy\<close> is removed and the element is unobserved.
\<close>

theorem lazy_source_on_first_visibility:
  assumes "e \<in> set doc" and "lazy_attrs e = Some v" and "\<forall>b\<in>set quiet. reports e b = 0"
  shows "src (deliveries lazy_callback quiet
            (lazyLoadElements doc reflects src_attrs lazy_attrs)) e = src_attrs e \<and>
     srcProperty (deliveries lazy_callback quiet
            (lazyLoadElements doc reflects src_attrs lazy_attrs)) e = None \<and>
     dataLazy (deliveries lazy_callback quiet
            (lazyLoadElements doc reflects src_attrs lazy_attrs)) e = Some v \<and>
     e \<in> set (observationTargets (deliveries lazy_callback quiet
            (lazyLoadElements doc reflects src_attrs lazy_attrs))) \<and>
     (reports e b = 1 \<longrightarrow>
       src (deliveries lazy_callback (quiet @ b # later)
             (lazyLoadElements doc reflects src_attrs lazy_attrs)) e =
         (if reflects e then Some v else src_attrs e) \<and>
       srcProperty (deliveries lazy_callback (quiet @ b # later)
             (lazyLoadElements doc reflects src_attrs lazy_attrs)) e =
         (if reflects e then None else Some (Some v)) \<and>
       dataLazy (deliveries lazy_callback (quiet @ b # later)
             (lazyLoadElements doc reflects src_attrs lazy_attrs)) e = None \<and>
       e \<notin> set (observationTargets (deliveries lazy_callback (quiet @ b # later)
             (lazyLoadElements doc reflects src_attrs lazy_attrs))))"
proof -
  let ?s0 = "lazyLoadElements doc reflects src_attrs lazy_attrs"
  let ?s1 = "deliveries lazy_callback quiet ?s0"
  let ?s2 = "notify lazy_callback b ?s1"
  have reg: "e \<in> set (observationTargets ?s0)"
    using assms(1,2) by (simp add: lazyLoadElements_observer)
  have before: "src ?s1 e = src_attrs e" "srcProperty ?s1 e = None" "dataLazy ?s1 e = Some v"
    "reflectsSrc ?s1 e = reflects e"
    using lazy_deliveries_untouched [OF assms(3), of ?s0] assms(2)
    by (simp_all add: lazyLoadElements_attrs)
  have obs: "e \<in> set (observationTargets ?s1)"
    using deliveries_quiet [of lazy_callback e ?s0 quiet, OF lazy_notify] reg assms(3) by simp
  have step: "deliveries lazy_callback (quiet @ b # later) ?s0 =
      deliveries lazy_callback later ?s2"
    by (simp add: deliveries_append deliveries_Cons)
  have after: "src (deliveries lazy_callback later ?s2) e =
         (if reflects e then Some v else src_attrs e) \<and>
       srcProperty (deliveries lazy_callback later ?s2) e =
         (if reflects e then None else Some (Some v)) \<and>
       dataLazy (deliveries lazy_callback later ?s2) e = None \<and>
       e \<notin> set (observationTargets (deliveries lazy_callback later ?s2))"
    if once: "reports e b = 1"
  proof -
    have gone: "e \<notin> set (observationTargets ?s2)"
      using once by (simp add: lazy_notify(2))
    from lazy_deliveries_unobserved [OF gone, of later]
      lazy_notify_once [OF once obs] before
    show ?thesis by (simp add: ToString_def)
  qed
  show ?thesis using before(1-3) obs after unfolding step by blast
qed

theorem lazy_source_on_first_visibility_witness:
  "(2::nat) \<in> set [1, 2, 3] \<and> (3::nat) \<in> set [1, 2, 3] \<and>
   [2 \<mapsto> ''photo.png'', 3 \<mapsto> ''bg.png''] (2::nat) = Some ''photo.png'' \<and>
   [2 \<mapsto> ''photo.png'', 3 \<mapsto> ''bg.png''] (3::nat) = Some ''bg.png'' \<and>
   reports 2 [\<lparr>target = 2, isIntersecting = False\<rparr>] = 0 \<and>
   reports 3 [\<lparr>target = 2, isIntersecting = False\<rparr>] = 0 \<and>
   reports 2 [\<lparr>target = 2, isIntersecting = True\<rparr>, \<lparr>target = 3, isIntersecting = True\<rparr>] = 1 \<and>
   reports 3 [\<lparr>target = 2, isIntersecting = True\<rparr>, \<lparr>target = 3, isIntersecting = True\<rparr>] = 1 \<and>
   src (deliveries lazy_callback [[\<lparr>target = 2, isIntersecting = False\<rparr>]]
          (lazyLoadElements [1, 2, 3] (\<lambda>e. e = 2) Map.empty
             [2 \<mapsto> ''photo.png'', 3 \<mapsto> ''bg.png''])) 2 = None \<and>
   src (deliveries lazy_callback
          ([[\<lparr>target = 2, isIntersecting = False\<rparr>]] @
           [\<lparr>target = 2, isIntersecting = True\<rparr>, \<lparr>target = 3, isIntersecting = True\<rparr>] #
           [[\<lparr>target = 2, isIntersecting = True\<rparr>]])
          (lazyLoadElements [1, 2, 3] (\<lambda>e. e = 2) Map.empty
             [2 \<mapsto> ''photo.png'', 3 \<mapsto> ''bg.png''])) 2 = Some ''photo.png'' \<and>
   src (deliveries lazy_callback
          ([[\<lparr>target = 2, isIntersecting = False\<rparr>]] @
           [\<lparr>target = 2, isIntersecting = True\<rparr>, \<lparr>target = 3, isIntersecting = True\<rparr>] #
           [[\<lparr>target = 2, isIntersecting = True\<rparr>]])
          (lazyLoadElements [1, 2, 3] (\<lambda>e. e = 2) Map.empty
             [2 \<mapsto> ''photo.png'', 3 \<mapsto> ''bg.png''])) 3 = None \<and>
   srcProperty (deliveries lazy_callback
          ([[\<lparr>target = 2, isIntersecting = False\<rparr>]] @
           [\<lparr>target = 2, isIntersecting = True\<rparr>, \<lparr>target = 3, isIntersecting = True\<rparr>] #
           [[\<lparr>target = 2, isIntersecting = True\<rparr>]])
          (lazyLoadElements [1, 2, 3] (\<lambda>e. e = 2) Map.empty
             [2 \<mapsto> ''photo.png'', 3 \<mapsto> ''bg.png''])) 3 = Some (Some ''bg.png'') \<and>
   dataLazy (deliveries lazy_callback
          ([[\<lparr>target = 2, isIntersecting = False\<rparr>]] @
           [\<lparr>target = 2, isIntersecting = True\<rparr>, \<lparr>target = 3, isIntersecting = True\<rparr>] #
           [[\<lparr>target = 2, isIntersecting = True\<rparr>]])
          (lazyLoadElements [1, 2, 3] (\<lambda>e. e = 2) Map.empty
             [2 \<mapsto> ''photo.png'', 3 \<mapsto> ''bg.png''])) 2 = None"
proof -
  let ?b = "[\<lparr>target = 2, isIntersecting = True\<rparr>, \<lparr>target = 3, isIntersecting = True\<rparr>]"
  have h1: "(2::nat) \<in> set [1, 2, 3]" "(3::nat) \<in> set [1, 2, 3]" by simp_all
  have h2: "[2 \<mapsto> ''photo.png'', 3 \<mapsto> ''bg.png''] (2::nat) = Some ''photo.png''"
    "[2 \<mapsto> ''photo.png'', 3 \<mapsto> ''bg.png''] (3::nat) = Some ''bg.png''"
    by simp_all
  have h3: "\<forall>b\<in>set [[\<lparr>target = 2, isIntersecting = False\<rparr>]]. reports 2 b = 0"
    "\<forall>b\<in>set [[\<lparr>target = 2, isIntersecting = False\<rparr>]]. reports 3 b = 0"
    by (simp_all add: reports_def)
  have h4: "reports 2 ?b = 1" "reports 3 ?b = 1"
    by (simp_all add: reports_def)
  from lazy_source_on_first_visibility [where e = 2 and doc = "[1, 2, 3]"
      and lazy_attrs = "[2 \<mapsto> ''photo.png'', 3 \<mapsto> ''bg.png'']" and v = "''photo.png''"
      and quiet = "[[\<lparr>target = 2, isIntersecting = False\<rparr>]]" and src_attrs = Map.empty
      and reflects = "\<lambda>e. e = 2" and b = ?b
      and later = "[[\<lparr>target = 2, isIntersecting = True\<rparr>]]", OF h1(1) h2(1) h3(1)]
    lazy_source_on_first_visibility [where e = 3 and doc = "[1, 2, 3]"
      and lazy_attrs = "[2 \<mapsto> ''photo.png'', 3 \<mapsto> ''bg.png'']" and v = "''bg.png''"
      and quiet = "[[\<lparr>target = 2, isIntersecting = False\<rparr>]]" and src_attrs = Map.empty
      and reflects = "\<lambda>e. e = 2" and b = ?b
      and later = "[[\<lparr>target = 2, isIntersecting = True\<rparr>]]", OF h1(2) h2(2) h3(2)]
    h1 h2 h3 h4
  show ?thesis by simp
qed

text \<open>
  A \<open>div\<close> with the attribute \<open>data-lazy\<close> is selected by \<open>[data-lazy]\<close> like an
  image, but its \<open>src\<close> property does not reflect an attribute: after the batch that
  reports it as intersecting, \<open>data-lazy\<close> is removed and the element still has no
  attribute \<open>src\<close>; the staged value is only kept in a property of the object.
\<close>

theorem lazy_source_counterexample:
  "src (deliveries lazy_callback [[\<lparr>target = 0, isIntersecting = True\<rparr>]]
          (lazyLoadElements [0] (\<lambda>e. False) Map.empty [0 \<mapsto> ''photo.png''])) 0 = None \<and>
   srcProperty (deliveries lazy_callback [[\<lparr>target = 0, isIntersecting = True\<rparr>]]
          (lazyLoadElements [0] (\<lambda>e. False) Map.empty [0 \<mapsto> ''photo.png''])) 0 =
     Some (Some ''photo.png'') \<and>
   dataLazy (deliveries lazy_callback [[\<lparr>target = 0, isIntersecting = True\<rparr>]]
          (lazyLoadElements [0] (\<lambda>e. False) Map.empty [0 \<mapsto> ''photo.png''])) 0 = None"
  by code_simp

subsection \<open>Scroll reveal\<close>

lemma reveal_timeouts_from:
  "\<forall>r\<in>set xs. isIntersecting r \<Longrightarrow>
   timeouts (forEach_from i (\<lambda>entry index s.
       if isIntersecting entry
       then unobserve (target entry)
              (setTimeout (target entry) (index * 100) (activated (target entry) s))
       else s) xs s) =
   timeouts s @ map (\<lambda>j. ((i + j) * 100, target (xs ! j))) [0..<length xs]"
proof (induction xs arbitrary: i s)
  case Nil
  show ?case by simp
next
  case (Cons x xs)
  have shift: "map (\<lambda>j. ((i + j) * 100, target ((x # xs) ! j))) [0..<length (x # xs)] =
      (i * 100, target x) # map (\<lambda>j. ((Suc i + j) * 100, target (xs ! j))) [0..<length xs]"
    by (simp add: upt_conv_Cons map_Suc_upt [symmetric] del: upt_Suc)
  from Cons show ?case
    unfolding shift by (simp add: unobserve_def setTimeout_def activated_def)
qed

lemma reveal_styles_from:
  "styles (forEach_from i (\<lambda>entry index s.
       if isIntersecting entry
       then unobserve (target entry)
              (setTimeout (target entry) (index * 100) (activated (target entry) s))
       else s) xs s) = styles s"
  by (induction xs arbitrary: i s) (simp_all add: unobserve_def setTimeout_def activated_def)

lemma reveal_notify_styles: "styles (notify reveal_callback b s) = styles s"
  by (simp add: notify_def reveal_callback_def forEach_def Let_def reveal_styles_from)

lemma reveal_deliveries_styles: "styles (deliveries reveal_callback bs s) = styles s"
  by (induction bs arbitrary: s) (simp_all add: deliveries_def reveal_notify_styles)

lemma observeElements_styles_from:
  "styles (forEach_from i (\<lambda>element index s.
       observe element
         (s\<lparr>styles := (styles s)(element := (styles s element)
              \<lparr>opacity := ''0'', transform := ''translateY(30px)'',
               transition := ''opacity 0.6s ease, transform 0.6s ease''\<rparr>)\<rparr>)) xs s) e =
   (if e \<in> set xs
    then (styles s e)\<lparr>opacity := ''0'', transform := ''translateY(30px)'',
               transition := ''opacity 0.6s ease, transform 0.6s ease''\<rparr>
    else styles s e)"
  by (induction xs arbitrary: i s) (auto simp: observe_def)

lemma observeElements_styles:
  "e \<in> set elements \<Longrightarrow>
   styles (observeElements elements markup) e =
     (markup e)\<lparr>opacity := ''0'', transform := ''translateY(30px)'',
               transition := ''opacity 0.6s ease, transform 0.6s ease''\<rparr>"
  by (simp add: observeElements_def forEach_def observeElements_styles_from)

text \<open>
  Claim C6.  When every record of a batch reports its element as intersecting, the
  reveal callback starts one timer per record, the timer of the record at position
  \<open>i\<close> with the delay \<open>i * 100\<close> milliseconds: the delays are 0, 100, 200, ... in
  the order of the batch, non-decreasing and 100 apart.  Until its timer fires, a
  registered element keeps the style that \<open>observeElements\<close> gave it (opacity 0,
  30px down, transitions of 0.6s); the timer's callback sets opacity 1 and the
  offset 0.  Time itself is not modelled: the delays are the values handed to
  \<open>setTimeout\<close>.
\<close>

theorem reveal_stagger:
  assumes "\<forall>r\<in>set entries. isIntersecting r"
  shows "timeouts (reveal_callback entries s) =
       timeouts s @ map (\<lambda>i. (i * 100, target (entries ! i))) [0..<length entries] \<and>
     sorted (map fst (drop (length (timeouts s)) (timeouts (reveal_callback entries s)))) \<and>
     (\<forall>i. Suc i < length entries \<longrightarrow>
        fst (timeouts (reveal_callback entries s) ! (length (timeouts s) + Suc i)) =
        fst (timeouts (reveal_callback entries s) ! (length (timeouts s) + i)) + 100) \<and>
     (e \<in> set elements \<longrightarrow>
        styles (deliveries reveal_callback batches (observeElements elements markup)) e =
          (markup e)\<lparr>opacity := ''0'', transform := ''translateY(30px)'',
             transition := ''opacity 0.6s ease, transform 0.6s ease''\<rparr>) \<and>
     styles (reveal_timeout e s) e = (styles s e)\<lparr>opacity := ''1'', transform := ''translateY(0)''\<rparr>"
proof -
  have t: "timeouts (reveal_callback entries s) =
       timeouts s @ map (\<lambda>i. (i * 100, target (entries ! i))) [0..<length entries]"
    using reveal_timeouts_from [OF assms, of 0 s]
    by (simp add: reveal_callback_def forEach_def)
  have d: "map fst (drop (length (timeouts s)) (timeouts (reveal_callback entries s))) =
      map (\<lambda>i. i * 100) [0..<length entries]"
    unfolding t by (simp add: comp_def)
  have "sorted (map (\<lambda>i::nat. i * 100) [0..<length entries])"
    by (simp add: sorted_iff_nth_mono)
  then have srt: "sorted (map fst (drop (length (timeouts s)) (timeouts (reveal_callback entries s))))"
    unfolding d .
  have gap: "\<forall>i. Suc i < length entries \<longrightarrow>
        fst (timeouts (reveal_callback entries s) ! (length (timeouts s) + Suc i)) =
        fst (timeouts (reveal_callback entries s) ! (length (timeouts s) + i)) + 100"
    unfolding t by (simp add: nth_append)
  have reg: "e \<in> set elements \<longrightarrow>
        styles (deliveries reveal_callback batches (observeElements elements markup)) e =
          (markup e)\<lparr>opacity := ''0'', transform := ''translateY(30px)'',
             transition := ''opacity 0.6s ease, transform 0.6s ease''\<rparr>"
    by (simp add: reveal_deliveries_styles observeElements_styles)
  have fire: "styles (reveal_timeout e s) e =
      (styles s e)\<lparr>opacity := ''1'', transform := ''translateY(0)''\<rparr>"
    by (simp add: reveal_timeout_def)
  show ?thesis using t srt gap reg fire by blast
qed


theorem reveal_stagger_witness:
  "timeouts (reveal_callback
      [\<lparr>target = 5, isIntersecting = True\<rparr>, \<lparr>target = 6, isIntersecting = True\<rparr>,
       \<lparr>target = 7, isIntersecting = True\<rparr>]
      (observeElements [5, 6, 7] (\<lambda>e. \<lparr>opacity = [], transform = [], transition = []\<rparr>))) =
   [(0, 5), (100, 6), (200, 7)] \<and>
   styles (deliveries reveal_callback [[\<lparr>target = 6, isIntersecting = True\<rparr>]]
      (observeElements [5, 6, 7] (\<lambda>e. \<lparr>opacity = [], transform = [], transition = []\<rparr>))) 6 =
   \<lparr>opacity = ''0'', transform = ''translateY(30px)'',
    transition = ''opacity 0.6s ease, transform 0.6s ease''\<rparr>"
proof -
  have h: "\<forall>r\<in>set [\<lparr>target = 5, isIntersecting = True\<rparr>, \<lparr>target = 6, isIntersecting = True\<rparr>,
       \<lparr>target = 7, isIntersecting = True\<rparr>]. isIntersecting r"
    by simp
  have t: "timeouts (observeElements [5, 6, 7]
      (\<lambda>e. \<lparr>opacity = [], transform = [], transition = []\<rparr>)) = []"
    by (simp add: observeElements_def forEach_def observe_def)
  have m: "(6::nat) \<in> set [5, 6, 7]" by simp
  from reveal_stagger [OF h, where s = "observeElements [5, 6, 7]
      (\<lambda>e. \<lparr>opacity = [], transform = [], transition = []\<rparr>)" and e = 6
      and elements = "[5, 6, 7]" and markup = "\<lambda>e. \<lparr>opacity = [], transform = [], transition = []\<rparr>"
      and batches = "[[\<lparr>target = 6, isIntersecting = True\<rparr>]]"] t m
  show ?thesis by (simp add: upt_conv_Cons)
qed

subsection \<open>Options\<close>

lemma bottom_margin_reveal: "bottom_margin ''0px 0px -50px 0px'' = Some (- 50)"
  by (simp add: bottom_margin_def pixels_def radixDigit_def digitValue_def mathInt_def)

text \<open>
  Claim C7, as the code has it.  Only the reveal observer is created with both
  options: the threshold 0.1 and the root margin \<open>0px 0px -50px 0px\<close>, whose bottom
  margin is \<open>-50\<close> pixels.  The observer of a counter has the threshold 0.5 and no
  root margin, so its bottom margin is 0.  The lazy observer is created without
  options: the threshold is 0 and the bottom margin is 0.
\<close>

theorem observer_options:
  "threshold (observeElements elements markup) = Some (1 / 10) \<and>
   rootMargin (observeElements elements markup) = Some ''0px 0px -50px 0px'' \<and>
   effective_bottom_margin (observeElements elements markup) = Some (- 50) \<and>
   threshold (animateCounter rnd e attr) = Some (1 / 2) \<and>
   rootMargin (animateCounter rnd e attr) = None \<and>
   effective_bottom_margin (animateCounter rnd e attr) = Some 0 \<and>
   threshold (lazyLoadElements doc reflects src_attrs lazy_attrs) = None \<and>
   rootMargin (lazyLoadElements doc reflects src_attrs lazy_attrs) = None \<and>
   effective_threshold (lazyLoadElements doc reflects src_attrs lazy_attrs) = 0 \<and>
   effective_bottom_margin (lazyLoadElements doc reflects src_attrs lazy_attrs) = Some 0"
  by (simp add: effective_threshold_def effective_bottom_margin_def bottom_margin_reveal
      observeElements_observer lazyLoadElements_observer animateCounter_fields)

text \<open>
  The observer of a counter has no root margin, and the lazy observer has neither a
  threshold nor a root margin.
\<close>

theorem observer_options_counterexample:
  "rootMargin (animateCounter (\<lambda>x. x) 0 (Some ''1280'')) = None \<and>
   threshold (lazyLoadElements [0] (\<lambda>e. True) Map.empty [0 \<mapsto> ''photo.png'']) = None \<and>
   rootMargin (lazyLoadElements [0] (\<lambda>e. True) Map.empty [0 \<mapsto> ''photo.png'']) = None"
  by (simp add: lazyLoadElements_observer animateCounter_fields)

subsection \<open>Dark mode\<close>

lemma toggle_click_fields:
  assumes "listening p"
  shows "bodyClassList (toggle_click p) =
      (if ''dark-mode'' \<in> bodyClassList p then bodyClassList p - {''dark-mode''}
       else insert ''dark-mode'' (bodyClassList p))"
    "localStorage (toggle_click p) =
      (localStorage p)(''darkMode'' \<mapsto> String_of_bool (''dark-mode'' \<notin> bodyClassList p))"
    "storageLog (toggle_click p) =
      storageLog p @ [SetItem ''darkMode'' (String_of_bool (''dark-mode'' \<notin> bodyClassList p))]"
    "listening (toggle_click p)" "darkModeToggle (toggle_click p) = darkModeToggle p"
  using assms by (simp_all add: toggle_click_def classList_toggle_def setItem_def Let_def)

lemma initDarkMode_fields:
  assumes "darkModeToggle p"
  shows "bodyClassList (initDarkMode p) =
      (if localStorage p ''darkMode'' = Some ''true''
       then insert ''dark-mode'' (bodyClassList p) else bodyClassList p)"
    "localStorage (initDarkMode p) = localStorage p"
    "storageLog (initDarkMode p) = storageLog p @ [GetItem ''darkMode'']"
    "listening (initDarkMode p)"
  using assms by (simp_all add: initDarkMode_def getItem_def Let_def)




text \<open>
  Claim C10, as the code has it.  On a page that has the toggle, the initialization
  adds the class \<open>dark-mode\<close> to the body exactly when the stored value is the
  string \<open>''true''\<close> and attaches the listener; on a page without the toggle it does
  nothing at all.  So the body has the class afterwards exactly when it had it before
  or the page has the toggle and \<open>''true''\<close> is stored, and with any other stored
  value, or none, the classes of the body stay as they were.  A click on the toggle
  stores \<open>''true''\<close> or \<open>''false''\<close> under the key and nothing else, and without
  the listener a click does nothing.
\<close>

theorem dark_mode_init:
  "(darkModeToggle p \<longrightarrow>
      bodyClassList (initDarkMode p) =
        (if localStorage p ''darkMode'' = Some ''true''
         then insert ''dark-mode'' (bodyClassList p) else bodyClassList p) \<and>
      listening (initDarkMode p)) \<and>
   (\<not> darkModeToggle p \<longrightarrow> initDarkMode p = p) \<and>
   (''dark-mode'' \<in> bodyClassList (initDarkMode p) \<longleftrightarrow>
      ''dark-mode'' \<in> bodyClassList p \<or>
      darkModeToggle p \<and> localStorage p ''darkMode'' = Some ''true'') \<and>
   (localStorage p ''darkMode'' \<noteq> Some ''true'' \<longrightarrow>
      bodyClassList (initDarkMode p) = bodyClassList p) \<and>
   (listening q \<longrightarrow>
      (\<exists>v. (v = ''true'' \<or> v = ''false'') \<and>
         storageLog (toggle_click q) = storageLog q @ [SetItem ''darkMode'' v] \<and>
         localStorage (toggle_click q) = (localStorage q)(''darkMode'' \<mapsto> v))) \<and>
   (\<not> listening q \<longrightarrow> toggle_click q = q)"
proof -
  have a: "darkModeToggle p \<longrightarrow>
      bodyClassList (initDarkMode p) =
        (if localStorage p ''darkMode'' = Some ''true''
         then insert ''dark-mode'' (bodyClassList p) else bodyClassList p) \<and>
      listening (initDarkMode p)"
    by (simp add: initDarkMode_fields)
  have b: "\<not> darkModeToggle p \<longrightarrow> initDarkMode p = p"
    by (simp add: initDarkMode_def)
  have c: "''dark-mode'' \<in> bodyClassList (initDarkMode p) \<longleftrightarrow>
      ''dark-mode'' \<in> bodyClassList p \<or>
      darkModeToggle p \<and> localStorage p ''darkMode'' = Some ''true''"
  proof (cases "darkModeToggle p")
    case True
    then show ?thesis by (simp add: initDarkMode_fields)
  next
    case False
    then show ?thesis by (simp add: initDarkMode_def)
  qed
  have d: "localStorage p ''darkMode'' \<noteq> Some ''true'' \<longrightarrow>
      bodyClassList (initDarkMode p) = bodyClassList p"
  proof (cases "darkModeToggle p")
    case True
    then show ?thesis by (simp add: initDarkMode_fields)
  next
    case False
    then show ?thesis by (simp add: initDarkMode_def)
  qed
  have e: "listening q \<longrightarrow>
      (\<exists>v. (v = ''true'' \<or> v = ''false'') \<and>
         storageLog (toggle_click q) = storageLog q @ [SetItem ''darkMode'' v] \<and>
         localStorage (toggle_click q) = (localStorage q)(''darkMode'' \<mapsto> v))"
  proof
    assume l: "listening q"
    show "\<exists>v. (v = ''true'' \<or> v = ''false'') \<and>
           storageLog (toggle_click q) = storageLog q @ [SetItem ''darkMode'' v] \<and>
           localStorage (toggle_click q) = (localStorage q)(''darkMode'' \<mapsto> v)"
      using toggle_click_fields(2,3) [OF l]
      by (intro exI [of _ "String_of_bool (''dark-mode'' \<notin> bodyClassList q)"])
        (simp add: String_of_bool_def)
  qed
  have f: "\<not> listening q \<longrightarrow> toggle_click q = q"
    by (simp add: toggle_click_def)
  show ?thesis by (intro conjI a b c d e f)
qed

theorem dark_mode_init_witness:
  "bodyClassList (initDarkMode \<lparr>darkModeToggle = True, bodyClassList = {},
      localStorage = [''darkMode'' \<mapsto> ''true''], listening = False, storageLog = []\<rparr>) =
     {''dark-mode''} \<and>
   bodyClassList (initDarkMode \<lparr>darkModeToggle = True, bodyClassList = {},
      localStorage = [''darkMode'' \<mapsto> ''false''], listening = False, storageLog = []\<rparr>) = {} \<and>
   initDarkMode \<lparr>darkModeToggle = False, bodyClassList = {},
      localStorage = [''darkMode'' \<mapsto> ''true''], listening = False, storageLog = []\<rparr> =
     \<lparr>darkModeToggle = False, bodyClassList = {},
      localStorage = [''darkMode'' \<mapsto> ''true''], listening = False, storageLog = []\<rparr> \<and>
   localStorage (toggle_click \<lparr>darkModeToggle = True, bodyClassList = {},
      localStorage = Map.empty, listening = True, storageLog = []\<rparr>) ''darkMode'' =
     Some ''true'' \<and>
   toggle_click \<lparr>darkModeToggle = False, bodyClassList = {},
      localStorage = [''darkMode'' \<mapsto> ''true''], listening = False, storageLog = []\<rparr> =
     \<lparr>darkModeToggle = False, bodyClassList = {},
      localStorage = [''darkMode'' \<mapsto> ''true''], listening = False, storageLog = []\<rparr>"
proof -
  let ?p = "\<lparr>darkModeToggle = True, bodyClassList = {},
      localStorage = [''darkMode'' \<mapsto> ''true''], listening = False, storageLog = []\<rparr>"
  let ?p' = "\<lparr>darkModeToggle = True, bodyClassList = {},
      localStorage = [''darkMode'' \<mapsto> ''false''], listening = False, storageLog = []\<rparr>"
  let ?n = "\<lparr>darkModeToggle = False, bodyClassList = {},
      localStorage = [''darkMode'' \<mapsto> ''true''], listening = False, storageLog = []\<rparr>"
  let ?q = "\<lparr>darkModeToggle = True, bodyClassList = {},
      localStorage = Map.empty, listening = True, storageLog = []\<rparr>"
  have h: "darkModeToggle ?p" "darkModeToggle ?p'" "\<not> darkModeToggle ?n" "listening ?q"
    "\<not> listening ?n" "localStorage ?p' ''darkMode'' \<noteq> Some ''true''"
    by simp_all
  have v: "storageLog (toggle_click ?q) = [SetItem ''darkMode'' ''true'']"
    by (simp add: toggle_click_def classList_toggle_def setItem_def String_of_bool_def Let_def)
  from dark_mode_init [where p = ?p and q = ?q] dark_mode_init [where p = ?p' and q = ?q]
    dark_mode_init [where p = ?n and q = ?n] h v
  show ?thesis by (auto simp: String_of_bool_def)
qed

text \<open>
  A page without the toggle element, with \<open>''true''\<close> stored: the class is not
  applied.  A page with the toggle whose body already has the class, with \<open>''false''\<close>
  stored: the body keeps the class.
\<close>

theorem dark_mode_init_counterexample:
  "''dark-mode'' \<notin> bodyClassList (initDarkMode \<lparr>darkModeToggle = False, bodyClassList = {},
      localStorage = [''darkMode'' \<mapsto> ''true''], listening = False, storageLog = []\<rparr>) \<and>
   ''dark-mode'' \<in> bodyClassList (initDarkMode \<lparr>darkModeToggle = True,
      bodyClassList = {''dark-mode''}, localStorage = [''darkMode'' \<mapsto> ''false''],
      listening = False, storageLog = []\<rparr>)"
  by (simp add: initDarkMode_def getItem_def Let_def)

subsection \<open>FAQ accordion\<close>

lemma faq_close_all:
  "classList (forEach_from i (\<lambda>item index p.
       p\<lparr>classList := (classList p)(item := classList p item - {''active''})\<rparr>) items p) e =
     (if e \<in> set items then classList p e - {''active''} else classList p e) \<and>
   document (forEach_from i (\<lambda>item index p.
       p\<lparr>classList := (classList p)(item := classList p item - {''active''})\<rparr>) items p) =
     document p"
  by (induction items arbitrary: i p) auto

lemma faq_click_result:
  assumes "parentElement p question = Some faqItem"
  shows "\<exists>p'. faq_click question p = Inr p' \<and> document p' = document p \<and>
    (\<forall>e. classList p' e =
      (if e = faqItem \<and> ''active'' \<notin> classList p faqItem
       then insert ''active'' (classList p e)
       else if e \<in> set (querySelectorAll_class ''faq-item'' p)
       then classList p e - {''active''} else classList p e))"
  using assms
  by (auto simp: faq_click_def Let_def forEach_def faq_close_all)

text \<open>
  Claim C9.  A click on a question whose parent element is \<open>faqItem\<close> ends with at
  most one open FAQ item: none when \<open>faqItem\<close> had the class \<open>active\<close> before the
  click, and otherwise \<open>faqItem\<close> alone (when it is an FAQ item).  The handler throws
  only for a question without a parent element.
\<close>

theorem faq_at_most_one_open:
  "case faq_click question p of
     Inl err \<Rightarrow> parentElement p question = None
   | Inr p' \<Rightarrow>
       (\<exists>faqItem. parentElement p question = Some faqItem \<and>
          active_items p' =
            (if ''active'' \<in> classList p faqItem then {}
             else {faqItem} \<inter> set (querySelectorAll_class ''faq-item'' p))) \<and>
       card (active_items p') \<le> 1"
proof (cases "parentElement p question")
  case None
  then show ?thesis by (simp add: faq_click_def)
next
  case (Some faqItem)
  from faq_click_result [OF Some] obtain p' where r: "faq_click question p = Inr p'"
      "document p' = document p"
      "\<And>e. classList p' e =
        (if e = faqItem \<and> ''active'' \<notin> classList p faqItem
         then insert ''active'' (classList p e)
         else if e \<in> set (querySelectorAll_class ''faq-item'' p)
         then classList p e - {''active''} else classList p e)"
    by blast
  have items: "querySelectorAll_class ''faq-item'' p' = querySelectorAll_class ''faq-item'' p"
    unfolding querySelectorAll_class_def r(2)
    by (rule filter_cong) (auto simp: r(3))
  have act: "active_items p' =
      (if ''active'' \<in> classList p faqItem then {}
       else {faqItem} \<inter> set (querySelectorAll_class ''faq-item'' p))"
    unfolding active_items_def items by (auto simp: r(3))
  have "card ({faqItem} \<inter> set (querySelectorAll_class ''faq-item'' p)) \<le> card {faqItem}"
    by (rule card_mono) simp_all
  then have "card (active_items p') \<le> 1"
    unfolding act by simp
  then show ?thesis using r(1) Some act by simp
qed

theorem faq_at_most_one_open_witness:
  "(case faq_click 4 \<lparr>document = [1, 2, 3, 4],
        classList = (\<lambda>e. {})(1 := {''faq-item'', ''active''}, 3 := {''faq-item'', ''active''},
                      2 := {''faq-question''}, 4 := {''faq-question''}),
        parentElement = [2 \<mapsto> 1, 4 \<mapsto> 3]\<rparr> of
      Inl err \<Rightarrow> False
    | Inr p' \<Rightarrow> active_items p' = {}) \<and>
   (case faq_click 2 \<lparr>document = [1, 2, 3, 4],
        classList = (\<lambda>e. {})(1 := {''faq-item''}, 3 := {''faq-item'', ''active''},
                      2 := {''faq-question''}, 4 := {''faq-question''}),
        parentElement = [2 \<mapsto> 1, 4 \<mapsto> 3]\<rparr> of
      Inl err \<Rightarrow> False
    | Inr p' \<Rightarrow> active_items p' = {1})"
proof -
  let ?a = "\<lparr>document = [1, 2, 3, 4],
        classList = (\<lambda>e. {})(1 := {''faq-item'', ''active''}, 3 := {''faq-item'', ''active''},
                      2 := {''faq-question''}, 4 := {''faq-question''}),
        parentElement = [2 \<mapsto> 1, 4 \<mapsto> 3]\<rparr>"
  let ?b = "\<lparr>document = [1, 2, 3, 4],
        classList = (\<lambda>e. {})(1 := {''faq-item''}, 3 := {''faq-item'', ''active''},
                      2 := {''faq-question''}, 4 := {''faq-question''}),
        parentElement = [2 \<mapsto> 1, 4 \<mapsto> 3]\<rparr>"
  from faq_at_most_one_open [where question = 4 and p = ?a]
    faq_at_most_one_open [where question = 2 and p = ?b]
  show ?thesis
    by (auto simp: querySelectorAll_class_def split: sum.splits)
qed

end
